theory Spec2Isabelle
  imports Complex_Main "HOL-Library.Word"
begin

unbundle bit_operations_syntax

chapter \<open>Definitions\<close>

section \<open>Binary wire decoders (frontend/src/services/websocket.ts)\<close>

text \<open>
  The two decoders wrap their whole body in \<^verbatim>\<open>try { ... } catch\<close>. Every
  exception the body can raise is a value of \<open>js_error\<close>; the body returns
  \<open>js_error + result\<close> and the wrapper maps \<open>Inl\<close> to \<^verbatim>\<open>null\<close>
  (\<open>None\<close>) or to the empty list.
\<close>

datatype js_error =
    InvalidCharacterError
  | RangeError
  | TooShort nat
  | InvalidType nat

subsection \<open>The platform function atob\<close>

text \<open>
  A JavaScript string is a sequence of 16-bit code units, here the list of their values
  (numbers below 65536). \<open>utf16\<close> writes one whose code units are all below 256 from a
  string literal.
\<close>

type_synonym js_string = "nat list"

definition utf16 :: "string \<Rightarrow> js_string" where
  "utf16 s = map (\<lambda>c. (of_char c :: nat)) s"

text \<open>
  \<^verbatim>\<open>atob\<close> is the browser's forgiving base64 decoder: it strips ASCII
  whitespace, drops up to two trailing \<^verbatim>\<open>=\<close> when the length is a multiple
  of four, throws InvalidCharacterError when the remaining length is 1 modulo 4 or a
  code unit is outside the base64 alphabet, and returns a string whose characters are
  the decoded bytes.
\<close>

definition is_ascii_whitespace :: "nat \<Rightarrow> bool" where
  "is_ascii_whitespace c = (c \<in> {9, 10, 12, 13, 32})"

definition b64_value :: "nat \<Rightarrow> nat option" where
  "b64_value c =
     (let n = c in
      if 65 \<le> n \<and> n \<le> 90 then Some (n - 65)
      else if 97 \<le> n \<and> n \<le> 122 then Some (n - 71)
      else if 48 \<le> n \<and> n \<le> 57 then Some (n + 4)
      else if n = 43 then Some 62
      else if n = 47 then Some 63
      else None)"

definition strip_padding :: "js_string \<Rightarrow> js_string" where
  "strip_padding s =
     (if length s mod 4 = 0 \<and> s \<noteq> [] \<and> last s = 61
      then (let s1 = butlast s in
            if s1 \<noteq> [] \<and> last s1 = 61 then butlast s1 else s1)
      else s)"

fun b64_groups :: "nat list \<Rightarrow> nat list" where
  "b64_groups (a # b # c # d # rest) =
     [a * 4 + b div 16, (b mod 16) * 16 + c div 4, (c mod 4) * 64 + d] @ b64_groups rest"
| "b64_groups [a, b, c] = [a * 4 + b div 16, (b mod 16) * 16 + c div 4]"
| "b64_groups [a, b] = [a * 4 + b div 16]"
| "b64_groups _ = []"

definition atob :: "js_string \<Rightarrow> js_error + string" where
  "atob s =
     (let d = strip_padding (filter (\<lambda>c. \<not> is_ascii_whitespace c) s) in
      if length d mod 4 = 1 then Inl InvalidCharacterError
      else (case those (map b64_value d) of
              None \<Rightarrow> Inl InvalidCharacterError
            | Some vs \<Rightarrow> Inr (map char_of (b64_groups vs))))"

subsection \<open>Uint8Array and DataView reads\<close>

type_synonym uint8 = "8 word"
type_synonym uint16 = "16 word"

text \<open>
  \<^verbatim>\<open>bytes[i] = buffer.charCodeAt(i)\<close> for every index of the decoded string.
\<close>

definition to_bytes :: "string \<Rightarrow> uint8 list" where
  "to_bytes buffer = map (\<lambda>c. (of_char c :: uint8)) buffer"

text \<open>A DataView read outside the buffer throws RangeError.\<close>

definition getUint8 :: "uint8 list \<Rightarrow> nat \<Rightarrow> js_error + uint8" where
  "getUint8 bytes off = (if off + 1 \<le> length bytes then Inr (bytes ! off) else Inl RangeError)"

text \<open>\<^verbatim>\<open>view.getUint16(off, false)\<close>: two bytes, big endian.\<close>

definition getUint16 :: "uint8 list \<Rightarrow> nat \<Rightarrow> js_error + uint16" where
  "getUint16 bytes off =
     (if off + 2 \<le> length bytes
      then Inr (push_bit 8 (ucast (bytes ! off)) OR ucast (bytes ! (off + 1)))
      else Inl RangeError)"

subsection \<open>Number.prototype.toFixed(2)\<close>

definition digit_char :: "nat \<Rightarrow> char" where
  "digit_char d = char_of (48 + d)"

fun show_nat :: "nat \<Rightarrow> string" where
  "show_nat n = (if n < 10 then [digit_char n] else show_nat (n div 10) @ [digit_char (n mod 10)])"

declare show_nat.simps [simp del]

text \<open>
  \<^verbatim>\<open>x.toFixed(2)\<close> for \<open>0 \<le> x < 10^21\<close>: the integer \<open>n\<close> nearest to
  \<open>100 x\<close> (the larger one on a tie), printed with a point before its last two digits.
\<close>

definition toFixed2 :: "rat \<Rightarrow> string" where
  "toFixed2 x =
     (let n = nat \<lfloor>x * 100 + 1 / 2\<rfloor> in
      show_nat (n div 100) @ ''.'' @ [digit_char (n div 10 mod 10), digit_char (n mod 10)])"

subsection \<open>decodeBinaryGameState\<close>

record game_state_data =
  gs_coefficient :: string
  gs_status :: string
  gs_countdown :: nat
  gs_crashed :: bool
  gs_crash_point :: "string option"
  gs_last_crash_coefficient :: string
  gs_game_just_crashed :: bool

definition statusMap :: "string list" where
  "statusMap = [''waiting'', ''playing'', ''crashed'']"

text \<open>\<^verbatim>\<open>statusMap[status] || 'waiting'\<close>: an index outside the array is undefined.\<close>

definition statusStr :: "uint8 \<Rightarrow> string" where
  "statusStr st = (if unat st < length statusMap then statusMap ! unat st else ''waiting'')"

text \<open>
  \<^verbatim>\<open>coefInt / 100\<close>: the double nearest to the quotient. Its nearest hundredth is
  the quotient itself, so \<^verbatim>\<open>toFixed(2)\<close> prints the same digits for both and the
  value is modelled by the exact quotient.
\<close>

definition coeff_value :: "uint16 \<Rightarrow> rat" where
  "coeff_value w = of_nat (unat w) / 100"

definition decodeBinaryGameState_body :: "js_string \<Rightarrow> js_error + game_state_data" where
  "decodeBinaryGameState_body binaryData =
     (case atob binaryData of
        Inl e \<Rightarrow> Inl e
      | Inr buffer \<Rightarrow>
          let bytes = to_bytes buffer in
          if length bytes < 7 then Inl (TooShort (length bytes))
          else
            (case getUint8 bytes 0 of Inl e \<Rightarrow> Inl e | Inr msgType \<Rightarrow>
             if msgType \<noteq> 1 then Inl (InvalidType (unat msgType))
             else
            (case getUint8 bytes 1 of Inl e \<Rightarrow> Inl e | Inr st \<Rightarrow>
            (case getUint8 bytes 2 of Inl e \<Rightarrow> Inl e | Inr flags \<Rightarrow>
            (case getUint16 bytes 3 of Inl e \<Rightarrow> Inl e | Inr coefInt \<Rightarrow>
            (case getUint16 bytes 5 of Inl e \<Rightarrow> Inl e | Inr lastCoefInt \<Rightarrow>
             let crashed = (flags AND 1 \<noteq> 0);
                 gameJustCrashed = (flags AND 2 \<noteq> 0);
                 hasCountdown = (flags AND 4 \<noteq> 0)
             in
            (case (if hasCountdown \<and> length bytes > 7
                   then map_sum id unat (getUint8 bytes 7) else Inr 0) of
               Inl e \<Rightarrow> Inl e
             | Inr countdown \<Rightarrow>
                 Inr \<lparr> gs_coefficient = toFixed2 (coeff_value coefInt),
                       gs_status = statusStr st,
                       gs_countdown = countdown,
                       gs_crashed = crashed,
                       gs_crash_point = None,
                       gs_last_crash_coefficient = toFixed2 (coeff_value lastCoefInt),
                       gs_game_just_crashed = gameJustCrashed \<rparr>)))))))"

text \<open>The catch handler logs and returns \<^verbatim>\<open>null\<close>.\<close>

definition decodeBinaryGameState :: "js_string \<Rightarrow> game_state_data option" where
  "decodeBinaryGameState binaryData =
     (case decodeBinaryGameState_body binaryData of Inl e \<Rightarrow> None | Inr r \<Rightarrow> Some r)"

subsection \<open>decodeBinaryCrashHistory\<close>

text \<open>
  \<^verbatim>\<open>numCoeffs = (bytes.length - 1) / 2\<close> is a floating-point quotient, a half-integer
  when the length is even; the loop test \<^verbatim>\<open>i < numCoeffs\<close> is \<open>2 i < length - 1\<close>
  (the length is at least 3 here).
\<close>

function crash_history_loop :: "uint8 list \<Rightarrow> nat \<Rightarrow> string list \<Rightarrow> js_error + string list" where
  "crash_history_loop bytes i coefficients =
     (if 2 * i < length bytes - 1
      then (case getUint16 bytes (1 + i * 2) of
              Inl e \<Rightarrow> Inl e
            | Inr coeffInt \<Rightarrow>
                crash_history_loop bytes (i + 1) (coefficients @ [toFixed2 (coeff_value coeffInt)]))
      else Inr coefficients)"
  by pat_completeness auto
termination
  by (relation "measure (\<lambda>(bytes, i, coefficients). length bytes - 2 * i)") auto

declare crash_history_loop.simps [simp del]

definition decodeBinaryCrashHistory_body :: "js_string \<Rightarrow> js_error + string list" where
  "decodeBinaryCrashHistory_body binaryData =
     (case atob binaryData of
        Inl e \<Rightarrow> Inl e
      | Inr buffer \<Rightarrow>
          let bytes = to_bytes buffer in
          if length bytes < 3 then Inl (TooShort (length bytes))
          else
            (case getUint8 bytes 0 of Inl e \<Rightarrow> Inl e | Inr msgType \<Rightarrow>
             if msgType \<noteq> 2 then Inl (InvalidType (unat msgType))
             else crash_history_loop bytes 0 []))"

text \<open>The catch handler logs and returns the empty array.\<close>

definition decodeBinaryCrashHistory :: "js_string \<Rightarrow> string list" where
  "decodeBinaryCrashHistory binaryData =
     (case decodeBinaryCrashHistory_body binaryData of Inl e \<Rightarrow> [] | Inr cs \<Rightarrow> cs)"

text \<open>
  A well-formed binary crash history: valid base64 for at least three bytes, the type tag 2
  followed by whole big-endian 16-bit values (so an odd number of bytes).
\<close>

definition well_formed_crash_history :: "js_string \<Rightarrow> bool" where
  "well_formed_crash_history s =
     (case atob s of Inl e \<Rightarrow> False
      | Inr buffer \<Rightarrow> 3 \<le> length buffer \<and> odd (length buffer) \<and> to_bytes buffer ! 0 = 2)"

section \<open>Relational schema and triggers (database_schema.sql and its migrations)\<close>

text \<open>
  Money columns are \<^verbatim>\<open>DECIMAL(12,2)\<close> (multipliers \<^verbatim>\<open>DECIMAL(10,2)\<close>): exact
  decimals with two fractional digits. A value is modelled by its number of hundredths,
  an \<open>int\<close>; \<^verbatim>\<open>999999999.99\<close> is \<open>99999999999\<close>. A value that does not fit the
  column's precision, or an \<^verbatim>\<open>INTEGER\<close> outside 32 bits, raises an error, and so does
  every violated constraint: the statement and the transaction around it are rolled back.
\<close>

type_synonym money = int

datatype db_error =
    check_violation string
  | unique_violation string
  | not_null_violation string
  | foreign_key_violation string
  | numeric_value_out_of_range
  | division_by_zero

definition numeric_12_2_ok :: "money \<Rightarrow> bool" where
  "numeric_12_2_ok v = (\<bar>v\<bar> < 10 ^ 12)"

definition numeric_10_2_ok :: "money \<Rightarrow> bool" where
  "numeric_10_2_ok v = (\<bar>v\<bar> < 10 ^ 10)"

definition int4_ok :: "int \<Rightarrow> bool" where
  "int4_ok n = (- (2 ^ 31) \<le> n \<and> n < 2 ^ 31)"

text \<open>
  PostgreSQL rounds a numeric to the scale of its column or variable half away from zero.
  \<open>round_half_away n d\<close> is the quotient \<open>n / d\<close> rounded so, for \<open>d \<noteq> 0\<close>.
\<close>

definition round_half_away :: "int \<Rightarrow> int \<Rightarrow> int" where
  "round_half_away n d = sgn n * sgn d * ((2 * \<bar>n\<bar> + \<bar>d\<bar>) div (2 * \<bar>d\<bar>))"

subsection \<open>Tables\<close>

text \<open>
  Of each table the columns that the constraints and triggers below read or write.
  \<^verbatim>\<open>users\<close> is keyed by id and holds the balance. The \<^verbatim>\<open>user_stats\<close> columns
  are nullable in the schema but every row written by the triggers holds values.
\<close>

record user_stats_row =
  total_games :: int
  games_won :: int
  games_lost :: int
  total_wagered :: money
  total_won :: money
  wagered_balance :: money
  best_multiplier :: money
  avg_multiplier :: money

record transaction =
  tx_user_id :: nat
  tx_game_id :: "int option"
  tx_type :: string
  tx_amount :: money
  tx_balance_after :: money
  tx_multiplier :: "money option"
  tx_status :: "string option"
  tx_created_at :: int

record payment_request =
  pr_user_id :: nat
  pr_gift_id :: string
  pr_price :: money
  pr_price_stars :: money
  pr_status :: "string option"
  pr_cancel_reason :: "string option"

record db =
  users :: "nat \<rightharpoonup> money"
  user_stats :: "nat \<rightharpoonup> user_stats_row"
  transactions :: "transaction list"
  payment_requests :: "nat \<rightharpoonup> payment_request"

definition empty_db :: db where
  "empty_db = \<lparr> users = Map.empty, user_stats = Map.empty, transactions = [],
                payment_requests = Map.empty \<rparr>"

subsection \<open>CHECK constraints\<close>

definition check_positive_balance :: "money \<Rightarrow> bool" where
  "check_positive_balance balance = (balance \<ge> 0)"

definition check_max_balance :: "money \<Rightarrow> bool" where
  "check_max_balance balance = (balance \<le> 99999999999)"

text \<open>The constraint as database_schema.sql creates it.\<close>

definition check_valid_transaction_amounts_schema :: "transaction \<Rightarrow> bool" where
  "check_valid_transaction_amounts_schema t =
     ((tx_type t \<in> {''game_win'', ''deposit'', ''referral_bonus'', ''withdrawal'', ''refund''}
         \<and> tx_amount t > 0) \<or>
      (tx_type t \<in> {''game_loss'', ''gift_purchase''} \<and> tx_amount t < 0) \<or>
      (tx_type t \<notin> {''game_win'', ''deposit'', ''referral_bonus'', ''game_loss'', ''withdrawal'',
                     ''gift_purchase'', ''refund''}))"

text \<open>
  The promo-code migration drops that constraint and creates it again with
  \<^verbatim>\<open>promo_code_bonus\<close>; this is the constraint in force.
\<close>

definition check_valid_transaction_amounts :: "transaction \<Rightarrow> bool" where
  "check_valid_transaction_amounts t =
     ((tx_type t \<in> {''game_win'', ''deposit'', ''referral_bonus'', ''withdrawal'', ''refund'',
                     ''promo_code_bonus''} \<and> tx_amount t > 0) \<or>
      (tx_type t \<in> {''game_loss'', ''gift_purchase''} \<and> tx_amount t < 0) \<or>
      (tx_type t \<notin> {''game_win'', ''deposit'', ''referral_bonus'', ''game_loss'', ''withdrawal'',
                     ''gift_purchase'', ''refund'', ''promo_code_bonus''}))"

definition check_positive_balance_after :: "transaction \<Rightarrow> bool" where
  "check_positive_balance_after t = (tx_balance_after t \<ge> 0)"

text \<open>A CHECK whose condition is NULL (here: a NULL multiplier) is satisfied.\<close>

definition check_valid_multiplier :: "transaction \<Rightarrow> bool" where
  "check_valid_multiplier t =
     (if tx_type t = ''game_win''
      then (case tx_multiplier t of None \<Rightarrow> True | Some m \<Rightarrow> m \<ge> 100 \<and> m \<le> 10000)
      else True)"

definition check_max_transaction_amount :: "transaction \<Rightarrow> bool" where
  "check_max_transaction_amount t = (\<bar>tx_amount t\<bar> \<le> 100000000)"

definition check_stats_logical :: "user_stats_row \<Rightarrow> bool" where
  "check_stats_logical r =
     (total_games r \<ge> 0 \<and> games_won r \<ge> 0 \<and> games_lost r \<ge> 0 \<and>
      games_won r \<le> total_games r \<and> games_lost r \<le> total_games r \<and>
      total_wagered r \<ge> 0 \<and> total_won r \<ge> 0 \<and> wagered_balance r \<ge> 0 \<and>
      best_multiplier r \<ge> 0 \<and> avg_multiplier r \<ge> 0)"

definition check_payment_request_positive_price :: "payment_request \<Rightarrow> bool" where
  "check_payment_request_positive_price p = (pr_price p > 0)"

definition check_payment_request_positive_price_stars :: "payment_request \<Rightarrow> bool" where
  "check_payment_request_positive_price_stars p = (pr_price_stars p > 0)"

definition check_payment_request_status :: "payment_request \<Rightarrow> bool" where
  "check_payment_request_status p =
     (case pr_status p of None \<Rightarrow> True
      | Some s \<Rightarrow> s \<in> {''pending'', ''approved'', ''completed'', ''canceled''})"

definition check_cancel_reason_valid :: "payment_request \<Rightarrow> bool" where
  "check_cancel_reason_valid p =
     (case pr_cancel_reason p of None \<Rightarrow> True
      | Some c \<Rightarrow> c \<in> {''no_message'', ''price_changed'', ''suspect_act''})"

subsection \<open>The partial unique index idx_unique_user_game_bet\<close>

text \<open>
  \<^verbatim>\<open>ON transactions (user_id, game_id, created_at)
  WHERE type IN ('game_loss', 'game_bet') AND status = 'completed'\<close>.
  A row is indexed when the predicate holds; two indexed rows conflict when all three key
  columns are equal and none is NULL.
\<close>

definition in_idx_unique_user_game_bet :: "transaction \<Rightarrow> bool" where
  "in_idx_unique_user_game_bet t =
     (tx_type t \<in> {''game_loss'', ''game_bet''} \<and> tx_status t = Some ''completed'')"

definition idx_unique_user_game_bet_conflict :: "transaction \<Rightarrow> transaction \<Rightarrow> bool" where
  "idx_unique_user_game_bet_conflict t u =
     (in_idx_unique_user_game_bet t \<and> in_idx_unique_user_game_bet u \<and>
      tx_user_id t = tx_user_id u \<and>
      tx_game_id t \<noteq> None \<and> tx_game_id t = tx_game_id u \<and>
      tx_created_at t = tx_created_at u)"

subsection \<open>Trigger function update_user_stats_on_transaction\<close>

text \<open>
  database_schema.sql defines the function; fix_user_stats_trigger.sql replaces it. The two
  bodies differ in one assignment, selected here by the version.
\<close>

datatype trigger_version = Schema_version | Migration_version

text \<open>
  \<^verbatim>\<open>SELECT ABS(amount) ... WHERE user_id = NEW.user_id AND game_id = NEW.game_id
  AND type = 'game_bet' LIMIT 1\<close>: no row when \<^verbatim>\<open>NEW.game_id\<close> is NULL; the first
  matching row in table order otherwise.
\<close>

definition find_game_bet_amount :: "transaction list \<Rightarrow> nat \<Rightarrow> int option \<Rightarrow> money option" where
  "find_game_bet_amount txs uid gid =
     (case gid of
        None \<Rightarrow> None
      | Some g \<Rightarrow>
          (case filter (\<lambda>t. tx_user_id t = uid \<and> tx_game_id t = Some g \<and> tx_type t = ''game_bet'') txs of
             [] \<Rightarrow> None
           | t # _ \<Rightarrow> Some \<bar>tx_amount t\<bar>))"

definition new_avg_multiplier :: "bool \<Rightarrow> money option \<Rightarrow> user_stats_row option \<Rightarrow> db_error + money" where
  "new_avg_multiplier is_win multiplier current_stats =
     (case (is_win, multiplier) of
        (True, Some m) \<Rightarrow>
          (case current_stats of
             None \<Rightarrow> Inr m
           | Some r \<Rightarrow>
               if games_won r = 0 then Inr m
               else if \<not> int4_ok (games_won r + 1) then Inl numeric_value_out_of_range
               else if games_won r + 1 = 0 then Inl division_by_zero
               else (let a = round_half_away (avg_multiplier r * games_won r + m) (games_won r + 1)
                     in if numeric_10_2_ok a then Inr a else Inl numeric_value_out_of_range))
      | _ \<Rightarrow> Inr (case current_stats of None \<Rightarrow> 0 | Some r \<Rightarrow> avg_multiplier r))"

text \<open>
  What a new or updated \<^verbatim>\<open>user_stats\<close> row must pass: the column types and
  \<^verbatim>\<open>check_stats_logical\<close>.
\<close>

definition user_stats_row_error :: "user_stats_row \<Rightarrow> db_error option" where
  "user_stats_row_error r =
     (if \<not> (int4_ok (total_games r) \<and> int4_ok (games_won r) \<and> int4_ok (games_lost r) \<and>
             numeric_12_2_ok (total_wagered r) \<and> numeric_12_2_ok (total_won r) \<and>
             numeric_12_2_ok (wagered_balance r) \<and>
             numeric_10_2_ok (best_multiplier r) \<and> numeric_10_2_ok (avg_multiplier r))
      then Some numeric_value_out_of_range
      else if \<not> check_stats_logical r then Some (check_violation ''check_stats_logical'')
      else None)"

definition write_user_stats :: "nat \<Rightarrow> user_stats_row \<Rightarrow> db \<Rightarrow> db_error + db" where
  "write_user_stats uid r d =
     (case user_stats_row_error r of
        Some e \<Rightarrow> Inl e
      | None \<Rightarrow> Inr (d\<lparr>user_stats := (user_stats d)(uid \<mapsto> r)\<rparr>))"

text \<open>
  \<^verbatim>\<open>INSERT INTO user_stats ... VALUES proposed ON CONFLICT (user_id) DO UPDATE SET ...\<close>:
  the proposed row is checked against the table's constraints before the conflict is
  looked for; without a conflict it is inserted (the user must exist), with one the
  existing row is updated and checked.
\<close>

definition upsert_user_stats ::
  "nat \<Rightarrow> user_stats_row \<Rightarrow> (user_stats_row \<Rightarrow> user_stats_row) \<Rightarrow> db \<Rightarrow> db_error + db" where
  "upsert_user_stats uid proposed on_conflict d =
     (case user_stats_row_error proposed of
        Some e \<Rightarrow> Inl e
      | None \<Rightarrow>
          (case user_stats d uid of
             None \<Rightarrow>
               if users d uid = None then Inl (foreign_key_violation ''user_stats_user_id_fkey'')
               else write_user_stats uid proposed d
           | Some r \<Rightarrow> write_user_stats uid (on_conflict r) d))"

definition update_user_stats_on_transaction :: "trigger_version \<Rightarrow> transaction \<Rightarrow> db \<Rightarrow> db_error + db" where
  "update_user_stats_on_transaction v NEW d =
     (if tx_type NEW \<notin> {''game_win'', ''game_loss''} then Inr d
      else
        let is_win = (tx_type NEW = ''game_win'');
            bet_amount =
              (if is_win
               then (case find_game_bet_amount (transactions d) (tx_user_id NEW) (tx_game_id NEW) of
                       None \<Rightarrow> 0 | Some a \<Rightarrow> a)
               else \<bar>tx_amount NEW\<bar>);
            win_amount = (if is_win then tx_amount NEW - bet_amount else 0);
            current_stats = user_stats d (tx_user_id NEW)
        in
          (case new_avg_multiplier is_win (tx_multiplier NEW) current_stats of
             Inl e \<Rightarrow> Inl e
           | Inr avg \<Rightarrow>
               if \<not> is_win then
                 upsert_user_stats (tx_user_id NEW)
                   \<lparr> total_games = 1, games_won = 0, games_lost = 1,
                     total_wagered = bet_amount, total_won = 0, wagered_balance = 0,
                     best_multiplier = 0, avg_multiplier = 0 \<rparr>
                   (\<lambda>r. r\<lparr> total_games := total_games r + 1,
                            games_lost := games_lost r + 1,
                            total_wagered := total_wagered r + bet_amount \<rparr>)
                   d
               else
                 upsert_user_stats (tx_user_id NEW)
                   \<lparr> total_games = 1, games_won = 1, games_lost = 0,
                     total_wagered = 0, total_won = win_amount, wagered_balance = win_amount,
                     best_multiplier = (case tx_multiplier NEW of None \<Rightarrow> 0 | Some m \<Rightarrow> m),
                     avg_multiplier = avg \<rparr>
                   (\<lambda>r. r\<lparr> total_games :=
                              (case v of
                                 Schema_version \<Rightarrow>
                                   (if games_won r \<ge> total_games r
                                    then total_games r + 1 else total_games r)
                               | Migration_version \<Rightarrow> total_games r + 1),
                            games_won := games_won r + 1,
                            total_won := total_won r + win_amount,
                            wagered_balance := wagered_balance r + win_amount,
                            best_multiplier :=
                              max (best_multiplier r)
                                  (case tx_multiplier NEW of None \<Rightarrow> 0 | Some m \<Rightarrow> m),
                            avg_multiplier := avg \<rparr>)
                   d))"

subsection \<open>Statements\<close>

text \<open>
  \<^verbatim>\<open>INSERT INTO transactions\<close>: column types, the foreign key, the CHECK constraints, the
  unique index, then the AFTER INSERT trigger. (The second AFTER INSERT trigger of the
  promo-code migration writes \<^verbatim>\<open>withdrawal_locked_balance\<close> only.)
\<close>

definition insert_transaction :: "trigger_version \<Rightarrow> transaction \<Rightarrow> db \<Rightarrow> db_error + db" where
  "insert_transaction v t d =
     (if \<not> (numeric_12_2_ok (tx_amount t) \<and> numeric_12_2_ok (tx_balance_after t) \<and>
             (case tx_multiplier t of None \<Rightarrow> True | Some m \<Rightarrow> numeric_10_2_ok m))
      then Inl numeric_value_out_of_range
      else if users d (tx_user_id t) = None
      then Inl (foreign_key_violation ''transactions_user_id_fkey'')
      else if \<not> check_valid_transaction_amounts t
      then Inl (check_violation ''check_valid_transaction_amounts'')
      else if \<not> check_positive_balance_after t
      then Inl (check_violation ''check_positive_balance_after'')
      else if \<not> check_valid_multiplier t
      then Inl (check_violation ''check_valid_multiplier'')
      else if \<not> check_max_transaction_amount t
      then Inl (check_violation ''check_max_transaction_amount'')
      else if list_ex (idx_unique_user_game_bet_conflict t) (transactions d)
      then Inl (unique_violation ''idx_unique_user_game_bet'')
      else update_user_stats_on_transaction v t (d\<lparr>transactions := transactions d @ [t]\<rparr>))"

text \<open>\<^verbatim>\<open>INSERT INTO users\<close> with the given id and balance.\<close>

definition insert_user :: "nat \<Rightarrow> money \<Rightarrow> db \<Rightarrow> db_error + db" where
  "insert_user uid b d =
     (if \<not> numeric_12_2_ok b then Inl numeric_value_out_of_range
      else if users d uid \<noteq> None then Inl (unique_violation ''users_pkey'')
      else if \<not> check_positive_balance b then Inl (check_violation ''check_positive_balance'')
      else if \<not> check_max_balance b then Inl (check_violation ''check_max_balance'')
      else Inr (d\<lparr>users := (users d)(uid \<mapsto> b)\<rparr>))"

text \<open>
  \<^verbatim>\<open>UPDATE users SET balance = f(balance) WHERE id = uid\<close>; no row, no change.
\<close>

definition update_users_balance :: "nat \<Rightarrow> (money \<Rightarrow> money) \<Rightarrow> db \<Rightarrow> db_error + db" where
  "update_users_balance uid f d =
     (case users d uid of
        None \<Rightarrow> Inr d
      | Some b \<Rightarrow>
          if \<not> numeric_12_2_ok (f b) then Inl numeric_value_out_of_range
          else if \<not> check_positive_balance (f b) then Inl (check_violation ''check_positive_balance'')
          else if \<not> check_max_balance (f b) then Inl (check_violation ''check_max_balance'')
          else Inr (d\<lparr>users := (users d)(uid \<mapsto> f b)\<rparr>))"

subsection \<open>Trigger function auto_refund_on_payment_cancel\<close>

text \<open>
  \<^verbatim>\<open>UPDATE user_stats SET wagered_balance = wagered_balance + (NEW.price_stars / 2)\<close>:
  the sum has three fractional digits when \<^verbatim>\<open>price_stars\<close> is an odd number of
  hundredths and is rounded to the column's two.
\<close>

definition restore_wagered_balance :: "nat \<Rightarrow> money \<Rightarrow> db \<Rightarrow> db_error + db" where
  "restore_wagered_balance uid price_stars d =
     (case user_stats d uid of
        None \<Rightarrow> Inr d
      | Some r \<Rightarrow>
          write_user_stats uid
            (r\<lparr>wagered_balance := round_half_away (2 * wagered_balance r + price_stars) 2\<rparr>) d)"

text \<open>
  The IF of the trigger is taken when its condition is TRUE; with a NULL status on either
  side the condition is NULL or FALSE. \<open>now\<close> is the value of \<^verbatim>\<open>NOW()\<close>.
\<close>

definition auto_refund_on_payment_cancel ::
  "trigger_version \<Rightarrow> int \<Rightarrow> payment_request \<Rightarrow> payment_request \<Rightarrow> db \<Rightarrow> db_error + db" where
  "auto_refund_on_payment_cancel v now OLD NEW d =
     (if pr_status NEW = Some ''canceled'' \<and>
         (case pr_status OLD of None \<Rightarrow> False | Some s \<Rightarrow> s \<noteq> ''canceled'')
      then
        (case update_users_balance (pr_user_id NEW) (\<lambda>b. b + pr_price_stars NEW) d of
           Inl e \<Rightarrow> Inl e
         | Inr d1 \<Rightarrow>
        (case restore_wagered_balance (pr_user_id NEW) (pr_price_stars NEW) d1 of
           Inl e \<Rightarrow> Inl e
         | Inr d2 \<Rightarrow>
        (case users d2 (pr_user_id NEW) of
           None \<Rightarrow> Inl (not_null_violation ''balance_after'')
         | Some balance \<Rightarrow>
             insert_transaction v
               \<lparr> tx_user_id = pr_user_id NEW, tx_game_id = None, tx_type = ''refund'',
                 tx_amount = pr_price_stars NEW, tx_balance_after = balance,
                 tx_multiplier = None, tx_status = Some ''completed'', tx_created_at = now \<rparr>
               d2)))
      else Inr d)"

text \<open>
  \<^verbatim>\<open>UPDATE payment_requests SET ... WHERE id = rid\<close> to the row \<open>NEW\<close>: the table's
  constraints, then the AFTER UPDATE trigger with the old and the new row.
\<close>

definition payment_request_row_ok :: "payment_request \<Rightarrow> db \<Rightarrow> db_error + unit" where
  "payment_request_row_ok p d =
     (if \<not> (numeric_12_2_ok (pr_price p) \<and> numeric_12_2_ok (pr_price_stars p))
      then Inl numeric_value_out_of_range
      else if users d (pr_user_id p) = None
      then Inl (foreign_key_violation ''payment_requests_user_id_fkey'')
      else if \<not> check_payment_request_positive_price p
      then Inl (check_violation ''check_payment_request_positive_price'')
      else if \<not> check_payment_request_positive_price_stars p
      then Inl (check_violation ''check_payment_request_positive_price_stars'')
      else if \<not> check_payment_request_status p
      then Inl (check_violation ''check_payment_request_status'')
      else if \<not> check_cancel_reason_valid p
      then Inl (check_violation ''check_cancel_reason_valid'')
      else Inr ())"

definition update_payment_request ::
  "trigger_version \<Rightarrow> int \<Rightarrow> nat \<Rightarrow> payment_request \<Rightarrow> db \<Rightarrow> db_error + db" where
  "update_payment_request v now rid NEW d =
     (case payment_requests d rid of
        None \<Rightarrow> Inr d
      | Some OLD \<Rightarrow>
          (case payment_request_row_ok NEW d of
             Inl e \<Rightarrow> Inl e
           | Inr _ \<Rightarrow>
               auto_refund_on_payment_cancel v now OLD NEW
                 (d\<lparr>payment_requests := (payment_requests d)(rid \<mapsto> NEW)\<rparr>)))"

definition insert_payment_request :: "nat \<Rightarrow> payment_request \<Rightarrow> db \<Rightarrow> db_error + db" where
  "insert_payment_request rid p d =
     (if payment_requests d rid \<noteq> None then Inl (unique_violation ''payment_requests_pkey'')
      else (case payment_request_row_ok p d of
              Inl e \<Rightarrow> Inl e
            | Inr _ \<Rightarrow> Inr (d\<lparr>payment_requests := (payment_requests d)(rid \<mapsto> p)\<rparr>)))"

subsection \<open>Sequences of statements\<close>

text \<open>
  Each statement runs in a transaction of its own: when it raises, the database is as
  before; \<^verbatim>\<open>now\<close> is the clock reading of that transaction.
\<close>

datatype db_op =
    Insert_user nat money
  | Update_balance nat money
  | Insert_transaction transaction
  | Insert_payment_request nat payment_request
  | Update_payment_request int nat payment_request

fun exec :: "trigger_version \<Rightarrow> db_op \<Rightarrow> db \<Rightarrow> db_error + db" where
  "exec v (Insert_user uid b) d = insert_user uid b d"
| "exec v (Update_balance uid b) d = update_users_balance uid (\<lambda>_. b) d"
| "exec v (Insert_transaction t) d = insert_transaction v t d"
| "exec v (Insert_payment_request rid p) d = insert_payment_request rid p d"
| "exec v (Update_payment_request now rid p) d = update_payment_request v now rid p d"

definition commit :: "trigger_version \<Rightarrow> db \<Rightarrow> db_op \<Rightarrow> db" where
  "commit v d op = (case exec v op d of Inl e \<Rightarrow> d | Inr d' \<Rightarrow> d')"

definition run :: "trigger_version \<Rightarrow> db_op list \<Rightarrow> db" where
  "run v ops = foldl (commit v) empty_db ops"

section \<open>Crash point generation (backend/GAME_CONFIG_README.md)\<close>


text \<open>
  \<^verbatim>\<open>Decimal.quantize(Decimal('0.01'))\<close> with the default rounding ROUND_HALF_EVEN.
\<close>

definition round_half_even :: "rat \<Rightarrow> int" where
  "round_half_even x =
     (let f = \<lfloor>x\<rfloor>; r = x - of_int f in
      if r < 1 / 2 then f
      else if r > 1 / 2 then f + 1
      else if even f then f else f + 1)"















section \<open>Store: the wagering gate (frontend Store component, src/unnamed/part_003)\<close>

subsection \<open>JavaScript numbers\<close>

text \<open>
  A JavaScript number is a double: zero, or \<open>\<plusminus> m * 2 ^ e\<close> with a significand
  \<open>2 ^ 52 \<le> m < 2 ^ 53\<close>. An arithmetic operation returns the exact result rounded to the
  nearest double, ties to the even significand (ECMAScript \<^verbatim>\<open>Number::subtract\<close> and
  \<^verbatim>\<open>Number::divide\<close>, IEEE 754 roundTiesToEven). Finite numbers are modelled as the
  rationals they denote, and the rounding as the function \<open>double\<close>; a rational \<open>x\<close> is a
  JavaScript number when \<open>double x = x\<close>. The exponent is not bounded: prices and balances
  are far from the overflow threshold \<open>2 ^ 1024\<close> and from the subnormal range, and a
  difference of two doubles that falls below \<open>2 ^ - 1022\<close> is a multiple of \<open>2 ^ - 1074\<close>,
  exact in IEEE 754 and here alike. \<^verbatim>\<open>NaN\<close> and the infinities are not modelled.
  Comparisons and \<^verbatim>\<open>Math.max\<close> are exact.
\<close>

text \<open>
  The number of binary digits of a positive integer.
\<close>

function bits :: "int \<Rightarrow> nat" where
  "bits n = (if n \<le> 0 then 0 else Suc (bits (n div 2)))"
  by pat_completeness auto
termination by (relation "measure nat") auto

declare bits.simps [simp del]

text \<open>
  The exponent \<open>e\<close> of a number \<open>x \<noteq> 0\<close>: \<open>2 ^ e \<le> \<bar>x\<bar> < 2 ^ (e + 1)\<close>.
\<close>

definition binade :: "rat \<Rightarrow> int" where
  "binade x =
     (if 1 \<le> \<bar>x\<bar> then int (bits \<lfloor>\<bar>x\<bar>\<rfloor>) - 1
      else - int (bits (\<lceil>1 / \<bar>x\<bar>\<rceil> - 1)))"

text \<open>
  Rounding to the nearest double: the significand \<open>x / 2 ^ (e - 52)\<close> is rounded to an
  integer, ties to even.
\<close>

definition double :: "rat \<Rightarrow> rat" where
  "double x =
     (if x = 0 then 0
      else (let e = binade x - 52 in of_int (round_half_even (x / 2 powi e)) * 2 powi e))"

subsection \<open>The helper functions and the purchase button\<close>

text \<open>
  \<^verbatim>\<open>return price / 2\<close> and
  \<^verbatim>\<open>return Math.max(0, required - current)\<close>: a division and a subtraction of
  doubles.
\<close>

definition calculateRequiredWagered :: "rat \<Rightarrow> rat" where
  "calculateRequiredWagered price = double (price / 2)"

definition calculateMissingWagered :: "rat \<Rightarrow> rat \<Rightarrow> rat" where
  "calculateMissingWagered price current =
     (let required = calculateRequiredWagered price in max 0 (double (required - current)))"

text \<open>
  The \<^verbatim>\<open>disabled\<close> attribute of a gift's purchase button:
  \<^verbatim>\<open>purchasing === gift.id || balance < gift.price ||
  (userStats ? userStats.wagered_balance < calculateRequiredWagered(gift.price) : false)\<close>.
  \<open>userStats\<close> is \<^verbatim>\<open>null\<close> (\<open>None\<close>) until \<^verbatim>\<open>loadUserStats\<close> has set it,
  then the record with its \<^verbatim>\<open>wagered_balance\<close>; the screen is shown without it when
  the ten-second loading timeout fires first.
\<close>

definition purchase_disabled :: "bool \<Rightarrow> rat \<Rightarrow> rat \<Rightarrow> rat option \<Rightarrow> bool" where
  "purchase_disabled purchasing_this balance price userStats =
     (purchasing_this \<or> balance < price \<or>
      (case userStats of
         Some wagered \<Rightarrow> wagered < calculateRequiredWagered price
       | None \<Rightarrow> False))"

subsection \<open>purchaseGift\<close>

record telegram_gift =
  gift_id :: string
  gift_price :: rat
  is_unique :: bool

text \<open>
  What \<^verbatim>\<open>purchaseGift\<close> does up to its request: it returns early when the gift is
  not in the list, when the confirmation popup (one for unique gifts, one for regular ones)
  is not answered with \<^verbatim>\<open>confirm\<close>, or when no Telegram init data is available
  after the retries; otherwise it posts \<^verbatim>\<open>{ gift_id }\<close> to
  \<^verbatim>\<open>/purchase-gift\<close>. It reads neither the balance nor \<^verbatim>\<open>userStats\<close>.
\<close>

datatype purchase_step = Gift_not_found | Cancelled | No_init_data | Post_purchase_gift string

definition purchaseGift :: "telegram_gift list \<Rightarrow> bool \<Rightarrow> bool \<Rightarrow> string \<Rightarrow> purchase_step" where
  "purchaseGift gifts confirmed telegramInitData giftId =
     (case find (\<lambda>g. gift_id g = giftId) gifts of
        None \<Rightarrow> Gift_not_found
      | Some gift \<Rightarrow>
          if \<not> confirmed then Cancelled
          else if \<not> telegramInitData then No_init_data
          else Post_purchase_gift giftId)"

text \<open>
  The state of the Store component that the button reads, and a click on the button of a
  gift: \<^verbatim>\<open>onClick={() => purchaseGift(gift.id)}\<close>, which a disabled button does not
  dispatch.
\<close>

record store =
  st_gifts :: "telegram_gift list"
  st_balance :: rat
  st_purchasing :: "string option"
  st_userStats :: "rat option"

definition click_purchase :: "store \<Rightarrow> bool \<Rightarrow> bool \<Rightarrow> telegram_gift \<Rightarrow> purchase_step option" where
  "click_purchase s confirmed telegramInitData gift =
     (if purchase_disabled (st_purchasing s = Some (gift_id gift)) (st_balance s) (gift_price gift)
           (st_userStats s)
      then None
      else Some (purchaseGift (st_gifts s) confirmed telegramInitData (gift_id gift)))"

section \<open>Game screen (frontend/src/components/Game/GameWebSocket.tsx)\<close>

text \<open>
  \<^verbatim>\<open>const newCoefficient = Math.max(1.0, rawCoefficient)\<close>, for a
  \<^verbatim>\<open>rawCoefficient\<close> that \<^verbatim>\<open>parseFloat\<close> parsed to a finite number.
\<close>

definition newCoefficient :: "rat \<Rightarrow> rat" where
  "newCoefficient rawCoefficient = max 1 rawCoefficient"

section \<open>Round engine (backend, not among the sources)\<close>

text \<open>
  Modelled from the spec: the backend's round state machine, tick scheduler and player
  session ledger (sections 3 and 4.2 to 4.4) are not under src/; only their callers in the
  frontend are. Decimal amounts and coefficients are rationals. The range check of
  balances and the ledger rows are those of the relational schema above and are not
  repeated here.
\<close>

text \<open>Modelled from the spec: the status of a Round (section 3).\<close>

datatype round_status = Waiting | Playing | Crashed

text \<open>Modelled from the spec: the status of a Bet (section 3).\<close>

datatype bet_status = Open | Cashed_out | Lost

text \<open>Modelled from the spec: the reason codes of rejected requests (sections 4.4 and 7).\<close>

datatype reject_reason =
    WrongPhase
  | JoinDeadlinePassed
  | BadAmount
  | InsufficientBalance
  | DuplicateBet
  | NoOpenBet
  | RoundAlreadyCrashed

text \<open>Modelled from the spec: the Bet entity (section 3).\<close>

record bet =
  amount :: rat
  bet_state :: bet_status
  cashout_coefficient :: "rat option"
  payout :: "rat option"

text \<open>
  Modelled from the spec: the Round entity with its bets (one per user), the
  configuration the engine consumes, and the balance accounts (section 3).
\<close>

record engine =
  growth_rate :: rat
  min_bet :: rat
  max_bet :: rat
  round_id :: nat
  status :: round_status
  join_open :: bool
  crash_point :: rat
  tick_count :: nat
  last_crash_coefficient :: rat
  bets :: "nat \<rightharpoonup> bet"
  balance :: "nat \<Rightarrow> rat"
  eligible :: "nat \<Rightarrow> rat"

text \<open>
  Modelled from the spec: the growth function of section 4.2,
  \<open>coefficient(t) = max(1.00, growth_rate^t)\<close>.
\<close>

definition coefficient :: "rat \<Rightarrow> nat \<Rightarrow> rat" where
  "coefficient g t = max 1 (g ^ t)"

text \<open>Modelled from the spec: the coefficient of the round at its current tick count.\<close>

definition current_coefficient :: "engine \<Rightarrow> rat" where
  "current_coefficient s = coefficient (growth_rate s) (tick_count s)"

text \<open>
  Modelled from the spec: the CRASHED transition (sections 4.3 and 4.4): every bet still
  open becomes lost, and the crash coefficient is kept for display.
\<close>

definition crash :: "engine \<Rightarrow> engine" where
  "crash s =
     s\<lparr> status := Crashed,
        bets := (\<lambda>u. map_option (\<lambda>b. if bet_state b = Open then b\<lparr>bet_state := Lost\<rparr> else b)
                               (bets s u)),
        last_crash_coefficient := crash_point s \<rparr>"

text \<open>
  Modelled from the spec: the round transitions to CRASHED at the first tick where
  \<open>coefficient(t) \<ge> crash_point\<close> (section 4.2); used at tick 0 and after every tick.
\<close>

definition crash_if_reached :: "engine \<Rightarrow> engine" where
  "crash_if_reached s = (if current_coefficient s \<ge> crash_point s then crash s else s)"

text \<open>
  Modelled from the spec: \<open>join(user, amount)\<close> of section 4.4: only while waiting and
  before the join deadline, amount within the configured bounds and at most the balance,
  DuplicateBet when the user already holds a bet this round; the stake is debited.
\<close>

definition join :: "nat \<Rightarrow> rat \<Rightarrow> engine \<Rightarrow> reject_reason + engine" where
  "join u a s =
     (if status s \<noteq> Waiting then Inl WrongPhase
      else if \<not> join_open s then Inl JoinDeadlinePassed
      else if a < min_bet s \<or> a > max_bet s then Inl BadAmount
      else if a > balance s u then Inl InsufficientBalance
      else if bets s u \<noteq> None then Inl DuplicateBet
      else Inr (s\<lparr> bets := (bets s)(u \<mapsto> \<lparr> amount = a, bet_state = Open,
                                               cashout_coefficient = None, payout = None \<rparr>),
                    balance := (balance s)(u := balance s u - a) \<rparr>))"

text \<open>
  Modelled from the spec: \<open>cashout(user)\<close> of section 4.4: valid only while playing, with
  the coefficient at processing time strictly below the crash point, for a user holding an
  open bet; a request after the crash is rejected as RoundAlreadyCrashed. The payout is
  amount times coefficient; the net winnings go to the eligible balance.
\<close>

definition cashout :: "nat \<Rightarrow> engine \<Rightarrow> reject_reason + engine" where
  "cashout u s =
     (if status s = Crashed then Inl RoundAlreadyCrashed
      else if status s \<noteq> Playing then Inl WrongPhase
      else if \<not> current_coefficient s < crash_point s then Inl RoundAlreadyCrashed
      else (case bets s u of
              None \<Rightarrow> Inl NoOpenBet
            | Some b \<Rightarrow>
                if bet_state b \<noteq> Open then Inl NoOpenBet
                else (let c = current_coefficient s; p = amount b * c in
                      Inr (s\<lparr> bets := (bets s)(u \<mapsto> b\<lparr> bet_state := Cashed_out,
                                                         cashout_coefficient := Some c,
                                                         payout := Some p \<rparr>),
                            balance := (balance s)(u := balance s u + p),
                            eligible := (eligible s)(u := eligible s u + (p - amount b)) \<rparr>))))"

text \<open>Modelled from the spec: the end of the join window of the WAITING state (section 4.3).\<close>

definition close_joins :: "engine \<Rightarrow> reject_reason + engine" where
  "close_joins s = (if status s \<noteq> Waiting then Inl WrongPhase else Inr (s\<lparr>join_open := False\<rparr>))"

text \<open>
  Modelled from the spec: WAITING to PLAYING (section 4.3); the tick count starts at 0.
\<close>

definition start_playing :: "engine \<Rightarrow> reject_reason + engine" where
  "start_playing s =
     (if status s \<noteq> Waiting then Inl WrongPhase
      else Inr (crash_if_reached (s\<lparr>status := Playing, join_open := False, tick_count := 0\<rparr>)))"

text \<open>Modelled from the spec: one tick of the PLAYING state (sections 4.2 and 4.3).\<close>

definition tick :: "engine \<Rightarrow> reject_reason + engine" where
  "tick s =
     (if status s \<noteq> Playing then Inl WrongPhase
      else Inr (crash_if_reached (s\<lparr>tick_count := tick_count s + 1\<rparr>)))"

text \<open>
  Modelled from the spec: CRASHED to WAITING with a new Round and its crash point
  (section 4.3).
\<close>

definition new_round :: "rat \<Rightarrow> engine \<Rightarrow> reject_reason + engine" where
  "new_round cp s =
     (if status s \<noteq> Crashed then Inl WrongPhase
      else Inr (s\<lparr> round_id := round_id s + 1, status := Waiting, join_open := True,
                    crash_point := cp, tick_count := 0, bets := Map.empty \<rparr>))"

text \<open>
  Modelled from the spec: the requests the round authority serializes (sections 4.3
  and 5).
\<close>

datatype request =
    Join nat rat
  | Cashout nat
  | Close_joins
  | Start_playing
  | Tick
  | New_round rat

text \<open>Modelled from the spec: the round authority handling one request.\<close>

fun handle :: "request \<Rightarrow> engine \<Rightarrow> reject_reason + engine" where
  "handle (Join u a) s = join u a s"
| "handle (Cashout u) s = cashout u s"
| "handle Close_joins s = close_joins s"
| "handle Start_playing s = start_playing s"
| "handle Tick s = tick s"
| "handle (New_round cp) s = new_round cp s"

text \<open>
  Modelled from the spec: a rejected request is a no-op (section 7); requests are
  processed one after the other.
\<close>

definition process :: "engine \<Rightarrow> request \<Rightarrow> engine" where
  "process s r = (case handle r s of Inl e \<Rightarrow> s | Inr s' \<Rightarrow> s')"

text \<open>Modelled from the spec: serving a sequence of requests in order.\<close>

definition serve :: "engine \<Rightarrow> request list \<Rightarrow> engine" where
  "serve s rs = foldl process s rs"

text \<open>Modelled from the spec: a request that ends the current round.\<close>

fun starts_new_round :: "request \<Rightarrow> bool" where
  "starts_new_round (New_round cp) = True"
| "starts_new_round r = False"

text \<open>
  Modelled from the spec: scenario 1 of section 8 (growth rate 1.01, crash point 2.00)
  with one user of balance 1000 in the waiting phase.
\<close>

definition scenario_engine :: engine where
  "scenario_engine =
     \<lparr> growth_rate = 101 / 100, min_bet = 10, max_bet = 100000, round_id = 1,
       status = Waiting, join_open = True, crash_point = 2, tick_count = 0,
       last_crash_coefficient = 1, bets = Map.empty,
       balance = (\<lambda>u. if u = 1 then 1000 else 0), eligible = (\<lambda>u. 0) \<rparr>"

section \<open>Example databases\<close>

text \<open>
  A user with net winnings of 100.00 and a pending payment request of 15.01 stars, and
  the same request canceled.
\<close>

definition refund_example_before :: db where
  "refund_example_before = run Migration_version
     [Insert_user 7 200000,
      Insert_transaction \<lparr> tx_user_id = 7, tx_game_id = Some 1, tx_type = ''game_win'',
            tx_amount = 10000, tx_balance_after = 210000, tx_multiplier = Some 200,
            tx_status = Some ''completed'', tx_created_at = 5 \<rparr>,
      Insert_payment_request 1 \<lparr> pr_user_id = 7, pr_gift_id = ''tophat'', pr_price = 2930,
            pr_price_stars = 1501, pr_status = Some ''pending'', pr_cancel_reason = None \<rparr>]"

definition refund_example_cancel :: payment_request where
  "refund_example_cancel =
     \<lparr> pr_user_id = 7, pr_gift_id = ''tophat'', pr_price = 2930, pr_price_stars = 1501,
       pr_status = Some ''canceled'', pr_cancel_reason = Some ''no_message'' \<rparr>"

text \<open>A user who has lost one game under the schema's trigger, and a win in a later round.\<close>

definition stats_example_db :: db where
  "stats_example_db = run Schema_version
     [Insert_user 1 100000,
      Insert_transaction \<lparr> tx_user_id = 1, tx_game_id = Some 1, tx_type = ''game_loss'',
            tx_amount = - 1000, tx_balance_after = 99000, tx_multiplier = None,
            tx_status = Some ''completed'', tx_created_at = 5 \<rparr>]"

definition stats_example_win :: transaction where
  "stats_example_win =
     \<lparr> tx_user_id = 1, tx_game_id = Some 2, tx_type = ''game_win'',
       tx_amount = 3000, tx_balance_after = 101000, tx_multiplier = Some 150,
       tx_status = Some ''completed'', tx_created_at = 9 \<rparr>"

chapter \<open>Theorems\<close>

section \<open>Binary wire decoders\<close>

text \<open>
  On a multiple of 0.01 the rounding step of \<open>toFixed2\<close> is exact: the string is the
  integer part, a point and the two digits of the hundredths.
\<close>

lemma toFixed2_hundredths:
  "toFixed2 (of_nat k / 100) =
     show_nat (k div 100) @ ''.'' @ [digit_char (k div 10 mod 10), digit_char (k mod 10)]"
proof -
  have "\<lfloor>(of_nat k :: rat) + 1 / 2\<rfloor> = int k"
    by (simp add: floor_unique)
  then have "nat \<lfloor>(of_nat k :: rat) / 100 * 100 + 1 / 2\<rfloor> = k" by simp
  then show ?thesis by (simp add: toFixed2_def Let_def)
qed

lemma coeff_value_range:
  "\<exists>k::nat. k \<le> 65535 \<and> toFixed2 (coeff_value w) = toFixed2 (of_nat k / 100)"
proof -
  have "unat w < 2 ^ LENGTH(16)" by (rule unsigned_less)
  then have "unat w \<le> 65535" by simp
  then show ?thesis unfolding coeff_value_def by blast
qed

lemma statusStr_cases: "statusStr st \<in> {''waiting'', ''playing'', ''crashed''}"
proof -
  have "unat st < 3 \<Longrightarrow> unat st = 0 \<or> unat st = 1 \<or> unat st = 2" by arith
  then show ?thesis
    by (cases "unat st < 3") (auto simp: statusStr_def statusMap_def)
qed

lemma decodeBinaryGameState_body_fields:
  assumes "decodeBinaryGameState_body s = Inr r"
  shows "\<exists>st c l. gs_status r = statusStr st \<and> gs_coefficient r = toFixed2 (coeff_value c)
          \<and> gs_last_crash_coefficient r = toFixed2 (coeff_value l)"
  using assms unfolding decodeBinaryGameState_body_def Let_def
  by (simp split: sum.splits if_splits) auto

lemma crash_history_loop_elems:
  "crash_history_loop bytes i acc = Inr cs \<Longrightarrow>
   (\<And>c. c \<in> set acc \<Longrightarrow> \<exists>w. c = toFixed2 (coeff_value w)) \<Longrightarrow>
   c \<in> set cs \<Longrightarrow> \<exists>w. c = toFixed2 (coeff_value w)"
proof (induction bytes i acc arbitrary: cs rule: crash_history_loop.induct)
  case (1 bytes i coefficients)
  show ?case
  proof (cases "2 * i < length bytes - 1")
    case True
    with "1.prems"(1) obtain w where w: "getUint16 bytes (1 + i * 2) = Inr w"
      and rec: "crash_history_loop bytes (i + 1) (coefficients @ [toFixed2 (coeff_value w)]) = Inr cs"
      by (subst (asm) crash_history_loop.simps) (auto split: sum.splits)
    show ?thesis
    proof (rule "1.IH"[OF True w rec _ "1.prems"(3)])
      fix c assume "c \<in> set (coefficients @ [toFixed2 (coeff_value w)])"
      then show "\<exists>w. c = toFixed2 (coeff_value w)" using "1.prems"(2) by auto
    qed
  next
    case False
    with "1.prems"(1) have "cs = coefficients"
      by (subst (asm) crash_history_loop.simps) simp
    then show ?thesis using "1.prems" by blast
  qed
qed

lemma crash_history_loop_odd:
  "odd (length bytes) \<Longrightarrow>
   \<exists>cs. crash_history_loop bytes i acc = Inr cs \<and>
        length cs = length acc + ((length bytes - 1) div 2 - i)"
proof (induction bytes i acc rule: crash_history_loop.induct)
  case (1 bytes i coefficients)
  show ?case
  proof (cases "2 * i < length bytes - 1")
    case True
    with "1.prems" have "1 + i * 2 + 2 \<le> length bytes" by presburger
    then obtain w where w: "getUint16 bytes (1 + i * 2) = Inr w"
      by (simp add: getUint16_def)
    from "1.IH"[OF True w "1.prems"] obtain cs where
      cs: "crash_history_loop bytes (i + 1) (coefficients @ [toFixed2 (coeff_value w)]) = Inr cs"
      and len: "length cs = length (coefficients @ [toFixed2 (coeff_value w)]) + ((length bytes - 1) div 2 - (i + 1))"
      by blast
    have "crash_history_loop bytes i coefficients = Inr cs"
      using True w cs by (subst crash_history_loop.simps) simp
    moreover have "i < (length bytes - 1) div 2"
      using True "1.prems" by presburger
    then have "length cs = length coefficients + ((length bytes - 1) div 2 - i)"
      using len by (simp del: One_nat_def) linarith
    ultimately show ?thesis by blast
  next
    case False
    then have "crash_history_loop bytes i coefficients = Inr coefficients"
      by (subst crash_history_loop.simps) simp
    moreover have "(length bytes - 1) div 2 - i = 0" using False by simp
    ultimately show ?thesis by simp
  qed
qed

lemma crash_history_loop_even:
  "even (length bytes) \<Longrightarrow> 2 * i < length bytes - 1 \<Longrightarrow>
   crash_history_loop bytes i acc = Inl RangeError"
proof (induction bytes i acc rule: crash_history_loop.induct)
  case (1 bytes i coefficients)
  show ?case
  proof (cases "1 + i * 2 + 2 \<le> length bytes")
    case True
    then obtain w where w: "getUint16 bytes (1 + i * 2) = Inr w"
      by (simp add: getUint16_def)
    have next_lt: "2 * (i + 1) < length bytes - 1" using True "1.prems"(1) by presburger
    have "crash_history_loop bytes (i + 1) (coefficients @ [toFixed2 (coeff_value w)]) = Inl RangeError"
      by (rule "1.IH"[OF "1.prems"(2) w "1.prems"(1) next_lt])
    then show ?thesis using "1.prems"(2) w by (subst crash_history_loop.simps) simp
  next
    case False
    then have "getUint16 bytes (1 + i * 2) = Inl RangeError" by (simp add: getUint16_def)
    then show ?thesis using "1.prems"(2) by (subst crash_history_loop.simps) simp
  qed
qed


lemma decodeBinaryCrashHistory_malformed:
  assumes "\<not> well_formed_crash_history s"
  shows "decodeBinaryCrashHistory s = []"
proof (cases "atob s")
  case (Inl e)
  then show ?thesis by (simp add: decodeBinaryCrashHistory_def decodeBinaryCrashHistory_body_def)
next
  case (Inr buffer)
  show ?thesis
  proof (cases "3 \<le> length buffer \<and> to_bytes buffer ! 0 = 2")
    case True
    with assms Inr have ev: "even (length (to_bytes buffer))"
      by (simp add: well_formed_crash_history_def to_bytes_def)
    have "2 * 0 < length (to_bytes buffer) - 1" using True by (simp add: to_bytes_def)
    from crash_history_loop_even[OF ev this]
    have "crash_history_loop (to_bytes buffer) 0 [] = Inl RangeError" .
    then show ?thesis using Inr
      by (simp add: decodeBinaryCrashHistory_def decodeBinaryCrashHistory_body_def Let_def
          split: sum.splits)
  next
    case False
    then show ?thesis using Inr
      by (auto simp: decodeBinaryCrashHistory_def decodeBinaryCrashHistory_body_def Let_def
          getUint8_def to_bytes_def split: sum.splits)
  qed
qed

lemma decodeBinaryCrashHistory_well_formed:
  assumes "atob s = Inr buffer" "3 \<le> length buffer" "odd (length buffer)"
    "to_bytes buffer ! 0 = 2"
  shows "length (decodeBinaryCrashHistory s) = (length buffer - 1) div 2"
proof -
  have "odd (length (to_bytes buffer))" using assms(3) by (simp add: to_bytes_def)
  from crash_history_loop_odd[OF this, of 0 "[]"] obtain cs where
    "crash_history_loop (to_bytes buffer) 0 [] = Inr cs"
    "length cs = (length buffer - 1) div 2" by (auto simp: to_bytes_def)
  then show ?thesis using assms
    by (simp add: decodeBinaryCrashHistory_def decodeBinaryCrashHistory_body_def Let_def
          getUint8_def to_bytes_def)
qed

lemma decodeBinaryCrashHistory_elems:
  assumes "c \<in> set (decodeBinaryCrashHistory s)"
  shows "\<exists>w. c = toFixed2 (coeff_value w)"
proof (cases "decodeBinaryCrashHistory_body s")
  case (Inl e)
  then show ?thesis using assms by (simp add: decodeBinaryCrashHistory_def)
next
  case (Inr cs)
  then obtain bytes where "crash_history_loop bytes 0 [] = Inr cs"
    by (auto simp: decodeBinaryCrashHistory_body_def Let_def split: sum.splits if_splits)
  from crash_history_loop_elems[OF this] assms Inr show ?thesis
    by (simp add: decodeBinaryCrashHistory_def)
qed

text \<open>
  C10. For every input string the two decoders return a value (exceptions never leave
  them): \<open>decodeBinaryGameState\<close> returns \<^verbatim>\<open>null\<close> or a record whose status is
  waiting, playing or crashed and whose coefficient and last crash coefficient are the
  two-decimal renderings of \<open>k / 100\<close> for some \<open>k \<le> 65535\<close>, that is of a multiple
  of 0.01 in [0, 655.35]; \<open>decodeBinaryCrashHistory\<close> returns a list of such renderings,
  empty exactly when the input is malformed.
\<close>

theorem binary_decoders_total_and_bounded:
  "(case decodeBinaryGameState s of
      None \<Rightarrow> True
    | Some r \<Rightarrow>
        gs_status r \<in> {''waiting'', ''playing'', ''crashed''} \<and>
        (\<exists>k::nat. k \<le> 65535 \<and> gs_coefficient r = toFixed2 (of_nat k / 100)) \<and>
        (\<exists>k::nat. k \<le> 65535 \<and> gs_last_crash_coefficient r = toFixed2 (of_nat k / 100))) \<and>
   (\<forall>c \<in> set (decodeBinaryCrashHistory s).
        \<exists>k::nat. k \<le> 65535 \<and> c = toFixed2 (of_nat k / 100)) \<and>
   (if well_formed_crash_history s
    then decodeBinaryCrashHistory s \<noteq> []
    else decodeBinaryCrashHistory s = [])"
proof (intro conjI)
  show "case decodeBinaryGameState s of
      None \<Rightarrow> True
    | Some r \<Rightarrow>
        gs_status r \<in> {''waiting'', ''playing'', ''crashed''} \<and>
        (\<exists>k::nat. k \<le> 65535 \<and> gs_coefficient r = toFixed2 (of_nat k / 100)) \<and>
        (\<exists>k::nat. k \<le> 65535 \<and> gs_last_crash_coefficient r = toFixed2 (of_nat k / 100))"
  proof (cases "decodeBinaryGameState_body s")
    case (Inl e)
    then show ?thesis by (simp add: decodeBinaryGameState_def)
  next
    case (Inr r)
    from decodeBinaryGameState_body_fields[OF Inr] obtain st c l where
      f: "gs_status r = statusStr st" "gs_coefficient r = toFixed2 (coeff_value c)"
         "gs_last_crash_coefficient r = toFixed2 (coeff_value l)" by blast
    from coeff_value_range[of c] coeff_value_range[of l] statusStr_cases[of st] f Inr
    show ?thesis by (simp add: decodeBinaryGameState_def)
  qed
next
  show "\<forall>c \<in> set (decodeBinaryCrashHistory s).
        \<exists>k::nat. k \<le> 65535 \<and> c = toFixed2 (of_nat k / 100)"
  proof
    fix c assume "c \<in> set (decodeBinaryCrashHistory s)"
    from decodeBinaryCrashHistory_elems[OF this] obtain w where "c = toFixed2 (coeff_value w)" ..
    then show "\<exists>k::nat. k \<le> 65535 \<and> c = toFixed2 (of_nat k / 100)"
      using coeff_value_range[of w] by simp
  qed
next
  show "if well_formed_crash_history s
    then decodeBinaryCrashHistory s \<noteq> []
    else decodeBinaryCrashHistory s = []"
  proof (cases "well_formed_crash_history s")
    case True
    then obtain buffer where b: "atob s = Inr buffer" "3 \<le> length buffer" "odd (length buffer)"
      "to_bytes buffer ! 0 = 2"
      by (auto simp: well_formed_crash_history_def split: sum.splits)
    from decodeBinaryCrashHistory_well_formed[OF b] b(2)
    have "length (decodeBinaryCrashHistory s) \<noteq> 0" by simp
    then show ?thesis using True by auto
  next
    case False
    then show ?thesis using decodeBinaryCrashHistory_malformed by simp
  qed
qed

theorem binary_decoders_witness:
  "decodeBinaryGameState (utf16 ''AQEFAHsBLAk='') =
     Some \<lparr> gs_coefficient = ''1.23'', gs_status = ''playing'', gs_countdown = 9,
            gs_crashed = True, gs_crash_point = None,
            gs_last_crash_coefficient = ''3.00'', gs_game_just_crashed = False \<rparr> \<and>
   decodeBinaryGameState (utf16 ''AQcA'') = None \<and>
   decodeBinaryCrashHistory (utf16 ''AgCWASw='') = [''1.50'', ''3.00''] \<and>
   well_formed_crash_history (utf16 ''AgCWASw='') \<and>
   decodeBinaryCrashHistory (utf16 ''AgCWAQ=='') = [] \<and>
   decodeBinaryCrashHistory (utf16 ''AgCWASw='') \<noteq> [] \<and>
   decodeBinaryGameState [20013, 25991] = None \<and>
   decodeBinaryCrashHistory [20013, 25991] = []"
proof -
  have a: "decodeBinaryGameState (utf16 ''AQEFAHsBLAk='') =
     Some \<lparr> gs_coefficient = ''1.23'', gs_status = ''playing'', gs_countdown = 9,
            gs_crashed = True, gs_crash_point = None,
            gs_last_crash_coefficient = ''3.00'', gs_game_just_crashed = False \<rparr>"
    by code_simp
  have b: "decodeBinaryGameState (utf16 ''AQcA'') = None" by code_simp
  have c: "decodeBinaryCrashHistory (utf16 ''AgCWASw='') = [''1.50'', ''3.00'']" by code_simp
  have d: "well_formed_crash_history (utf16 ''AgCWASw='')" by code_simp
  have e: "decodeBinaryCrashHistory (utf16 ''AgCWAQ=='') = []" by code_simp
  have f: "decodeBinaryGameState [20013, 25991] = None"
    by (simp add: decodeBinaryGameState_def decodeBinaryGameState_body_def atob_def
        strip_padding_def is_ascii_whitespace_def b64_value_def Let_def)
  have g: "decodeBinaryCrashHistory [20013, 25991] = []"
    by (simp add: decodeBinaryCrashHistory_def decodeBinaryCrashHistory_body_def atob_def
        strip_padding_def is_ascii_whitespace_def b64_value_def Let_def)
  from binary_decoders_total_and_bounded[of "utf16 ''AgCWASw=''"] d
  have "decodeBinaryCrashHistory (utf16 ''AgCWASw='') \<noteq> []" by simp
  with a b c d e f g show ?thesis by blast
qed


section \<open>Relational schema: what a committed statement changes\<close>

lemma write_user_stats_Inr:
  "write_user_stats uid r d = Inr d' \<Longrightarrow>
     d' = d\<lparr>user_stats := (user_stats d)(uid \<mapsto> r)\<rparr> \<and> check_stats_logical r"
  by (auto simp: write_user_stats_def user_stats_row_error_def split: option.splits if_splits)

lemma upsert_user_stats_Inr:
  "upsert_user_stats uid proposed on_conflict d = Inr d' \<Longrightarrow>
     write_user_stats uid
       (case user_stats d uid of None \<Rightarrow> proposed | Some r \<Rightarrow> on_conflict r) d = Inr d'"
  by (auto simp: upsert_user_stats_def split: option.splits if_splits)

lemma update_user_stats_on_transaction_frame:
  assumes "update_user_stats_on_transaction v t d = Inr d'"
  shows "users d' = users d \<and> transactions d' = transactions d \<and>
         payment_requests d' = payment_requests d"
proof (cases "tx_type t \<notin> {''game_win'', ''game_loss''}")
  case True
  then show ?thesis using assms by (simp add: update_user_stats_on_transaction_def)
next
  case False
  then obtain r where "write_user_stats (tx_user_id t) r d = Inr d'"
    using assms unfolding update_user_stats_on_transaction_def Let_def
    by (auto split: sum.splits if_splits dest: upsert_user_stats_Inr)
  from write_user_stats_Inr[OF this] show ?thesis by simp
qed

lemma insert_transaction_Inr:
  assumes "insert_transaction v t d = Inr d'"
  shows "users d' = users d \<and> transactions d' = transactions d @ [t] \<and>
         payment_requests d' = payment_requests d \<and>
         check_valid_transaction_amounts t \<and> check_positive_balance_after t \<and>
         check_valid_multiplier t \<and> check_max_transaction_amount t \<and>
         \<not> list_ex (idx_unique_user_game_bet_conflict t) (transactions d) \<and>
         update_user_stats_on_transaction v t (d\<lparr>transactions := transactions d @ [t]\<rparr>) = Inr d'"
proof -
  from assms have c: "check_valid_transaction_amounts t" "check_positive_balance_after t"
    "check_valid_multiplier t" "check_max_transaction_amount t"
    "\<not> list_ex (idx_unique_user_game_bet_conflict t) (transactions d)"
    and tr: "update_user_stats_on_transaction v t (d\<lparr>transactions := transactions d @ [t]\<rparr>) = Inr d'"
    unfolding insert_transaction_def by (simp_all split: if_splits)
  from update_user_stats_on_transaction_frame[OF tr] c tr show ?thesis by simp
qed

lemma insert_user_Inr:
  "insert_user uid b d = Inr d' \<Longrightarrow>
     d' = d\<lparr>users := (users d)(uid \<mapsto> b)\<rparr> \<and> 0 \<le> b \<and> b \<le> 99999999999"
  by (auto simp: insert_user_def check_positive_balance_def check_max_balance_def split: if_splits)

lemma update_users_balance_Inr:
  "update_users_balance uid f d = Inr d' \<Longrightarrow>
     (users d uid = None \<and> d' = d) \<or>
     (\<exists>b. users d uid = Some b \<and> d' = d\<lparr>users := (users d)(uid \<mapsto> f b)\<rparr> \<and>
          0 \<le> f b \<and> f b \<le> 99999999999)"
  by (auto simp: update_users_balance_def check_positive_balance_def check_max_balance_def
      split: option.splits if_splits)

lemma restore_wagered_balance_Inr:
  "restore_wagered_balance uid p d = Inr d' \<Longrightarrow>
     (user_stats d uid = None \<and> d' = d) \<or>
     (\<exists>r. user_stats d uid = Some r \<and>
          d' = d\<lparr>user_stats := (user_stats d)(uid \<mapsto>
                  r\<lparr>wagered_balance := round_half_away (2 * wagered_balance r + p) 2\<rparr>)\<rparr>)"
  by (auto simp: restore_wagered_balance_def split: option.splits dest!: write_user_stats_Inr)

lemma auto_refund_not_taken:
  "\<not> (pr_status NEW = Some ''canceled'' \<and> (\<exists>s. pr_status OLD = Some s \<and> s \<noteq> ''canceled'')) \<Longrightarrow>
   auto_refund_on_payment_cancel v now OLD NEW d = Inr d"
  by (auto simp: auto_refund_on_payment_cancel_def split: option.splits)

lemma auto_refund_taken:
  assumes "pr_status NEW = Some ''canceled''" "pr_status OLD = Some s" "s \<noteq> ''canceled''"
    and "auto_refund_on_payment_cancel v now OLD NEW d = Inr d'"
  shows "\<exists>b. users d (pr_user_id NEW) = Some b \<and>
             users d' = (users d)(pr_user_id NEW \<mapsto> b + pr_price_stars NEW) \<and>
             0 \<le> b + pr_price_stars NEW \<and> b + pr_price_stars NEW \<le> 99999999999 \<and>
             user_stats d' =
               (case user_stats d (pr_user_id NEW) of
                  None \<Rightarrow> user_stats d
                | Some r \<Rightarrow> (user_stats d)(pr_user_id NEW \<mapsto>
                     r\<lparr>wagered_balance :=
                         round_half_away (2 * wagered_balance r + pr_price_stars NEW) 2\<rparr>)) \<and>
             transactions d' = transactions d @
               [\<lparr> tx_user_id = pr_user_id NEW, tx_game_id = None, tx_type = ''refund'',
                  tx_amount = pr_price_stars NEW, tx_balance_after = b + pr_price_stars NEW,
                  tx_multiplier = None, tx_status = Some ''completed'', tx_created_at = now \<rparr>] \<and>
             payment_requests d' = payment_requests d"
proof -
  from assms obtain d1 d2 bal where
    s1: "update_users_balance (pr_user_id NEW) (\<lambda>b. b + pr_price_stars NEW) d = Inr d1" and
    s2: "restore_wagered_balance (pr_user_id NEW) (pr_price_stars NEW) d1 = Inr d2" and
    s3: "users d2 (pr_user_id NEW) = Some bal" and
    s4: "insert_transaction v
               \<lparr> tx_user_id = pr_user_id NEW, tx_game_id = None, tx_type = ''refund'',
                 tx_amount = pr_price_stars NEW, tx_balance_after = bal,
                 tx_multiplier = None, tx_status = Some ''completed'', tx_created_at = now \<rparr>
               d2 = Inr d'"
    unfolding auto_refund_on_payment_cancel_def
    by (simp split: sum.splits option.splits)
  from restore_wagered_balance_Inr[OF s2] have u2: "users d2 = users d1"
    "transactions d2 = transactions d1" "payment_requests d2 = payment_requests d1"
    and us2: "user_stats d2 = (case user_stats d1 (pr_user_id NEW) of
                  None \<Rightarrow> user_stats d1
                | Some r \<Rightarrow> (user_stats d1)(pr_user_id NEW \<mapsto>
                     r\<lparr>wagered_balance :=
                         round_half_away (2 * wagered_balance r + pr_price_stars NEW) 2\<rparr>))"
    by auto
  from update_users_balance_Inr[OF s1] s3 u2 obtain b where
    b: "users d (pr_user_id NEW) = Some b"
       "d1 = d\<lparr>users := (users d)(pr_user_id NEW \<mapsto> b + pr_price_stars NEW)\<rparr>"
       "0 \<le> b + pr_price_stars NEW" "b + pr_price_stars NEW \<le> 99999999999"
    by auto
  have bal: "bal = b + pr_price_stars NEW" using s3 u2 b by simp
  have tr: "update_user_stats_on_transaction v
               \<lparr> tx_user_id = pr_user_id NEW, tx_game_id = None, tx_type = ''refund'',
                 tx_amount = pr_price_stars NEW, tx_balance_after = bal,
                 tx_multiplier = None, tx_status = Some ''completed'', tx_created_at = now \<rparr>
               (d2\<lparr>transactions := transactions d2 @ [\<lparr> tx_user_id = pr_user_id NEW, tx_game_id = None, tx_type = ''refund'',
                 tx_amount = pr_price_stars NEW, tx_balance_after = bal,
                 tx_multiplier = None, tx_status = Some ''completed'', tx_created_at = now \<rparr>]\<rparr>) = Inr d'"
    using insert_transaction_Inr[OF s4] by simp
  then have us': "user_stats d' = user_stats d2"
    by (auto simp: update_user_stats_on_transaction_def)
  have i4: "users d' = users d2" "transactions d' = transactions d2 @
               [\<lparr> tx_user_id = pr_user_id NEW, tx_game_id = None, tx_type = ''refund'',
                  tx_amount = pr_price_stars NEW, tx_balance_after = bal,
                  tx_multiplier = None, tx_status = Some ''completed'', tx_created_at = now \<rparr>]"
    "payment_requests d' = payment_requests d2"
    using insert_transaction_Inr[OF s4] by simp_all
  have e1: "users d' = (users d)(pr_user_id NEW \<mapsto> b + pr_price_stars NEW)"
    using i4(1) u2(1) b(2) by simp
  have e2: "user_stats d' =
               (case user_stats d (pr_user_id NEW) of
                  None \<Rightarrow> user_stats d
                | Some r \<Rightarrow> (user_stats d)(pr_user_id NEW \<mapsto>
                     r\<lparr>wagered_balance :=
                         round_half_away (2 * wagered_balance r + pr_price_stars NEW) 2\<rparr>))"
    using us' us2 b(2) by (simp split: option.splits)
  have e3: "transactions d' = transactions d @
               [\<lparr> tx_user_id = pr_user_id NEW, tx_game_id = None, tx_type = ''refund'',
                  tx_amount = pr_price_stars NEW, tx_balance_after = b + pr_price_stars NEW,
                  tx_multiplier = None, tx_status = Some ''completed'', tx_created_at = now \<rparr>]"
    using i4(2) u2(2) b(2) bal by simp
  have e4: "payment_requests d' = payment_requests d"
    using i4(3) u2(3) b(2) by simp
  from b(1) b(3) b(4) e1 e2 e3 e4 show ?thesis by blast
qed

lemma update_payment_request_Inr:
  assumes "update_payment_request v now rid NEW d = Inr d'"
  shows "d' = d \<or> (\<exists>OLD. payment_requests d rid = Some OLD \<and>
            check_payment_request_positive_price_stars NEW \<and>
            auto_refund_on_payment_cancel v now OLD NEW
              (d\<lparr>payment_requests := (payment_requests d)(rid \<mapsto> NEW)\<rparr>) = Inr d')"
  using assms unfolding update_payment_request_def payment_request_row_ok_def
  by (auto split: option.splits sum.splits if_splits)

lemma auto_refund_cases:
  assumes "auto_refund_on_payment_cancel v now OLD NEW d = Inr d'"
  shows "d' = d \<or>
     (\<exists>b. users d (pr_user_id NEW) = Some b \<and>
          users d' = (users d)(pr_user_id NEW \<mapsto> b + pr_price_stars NEW) \<and>
          0 \<le> b + pr_price_stars NEW \<and> b + pr_price_stars NEW \<le> 99999999999 \<and>
          transactions d' = transactions d @
               [\<lparr> tx_user_id = pr_user_id NEW, tx_game_id = None, tx_type = ''refund'',
                  tx_amount = pr_price_stars NEW, tx_balance_after = b + pr_price_stars NEW,
                  tx_multiplier = None, tx_status = Some ''completed'', tx_created_at = now \<rparr>])"
proof (cases "pr_status NEW = Some ''canceled'' \<and> (\<exists>s. pr_status OLD = Some s \<and> s \<noteq> ''canceled'')")
  case True
  then obtain s where "pr_status NEW = Some ''canceled''" "pr_status OLD = Some s" "s \<noteq> ''canceled''"
    by blast
  from auto_refund_taken[OF this assms] show ?thesis by blast
next
  case False
  from auto_refund_not_taken[OF this] assms show ?thesis by simp
qed

lemma exec_users_bounds:
  assumes "exec v op d = Inr d'"
    and "\<And>uid b. users d uid = Some b \<Longrightarrow> 0 \<le> b \<and> b \<le> 99999999999"
    and "users d' uid = Some b"
  shows "0 \<le> b \<and> b \<le> 99999999999"
proof (cases op)
  case (Insert_user u x)
  with assms(1) have "d' = d\<lparr>users := (users d)(u \<mapsto> x)\<rparr> \<and> 0 \<le> x \<and> x \<le> 99999999999"
    by (simp add: insert_user_Inr)
  then show ?thesis using assms(2,3) by (cases "uid = u") auto
next
  case (Update_balance u x)
  with assms(1) have "update_users_balance u (\<lambda>_. x) d = Inr d'" by simp
  from update_users_balance_Inr[OF this] show ?thesis
    using assms(2,3) by (cases "uid = u") auto
next
  case (Insert_transaction t)
  with assms(1) have "insert_transaction v t d = Inr d'" by simp
  from insert_transaction_Inr[OF this] show ?thesis using assms(2,3) by simp
next
  case (Insert_payment_request rid p)
  with assms(1) have "users d' = users d"
    by (auto simp: insert_payment_request_def split: if_splits sum.splits)
  then show ?thesis using assms(2,3) by simp
next
  case (Update_payment_request now rid p)
  with assms(1) have u: "update_payment_request v now rid p d = Inr d'" by simp
  from update_payment_request_Inr[OF u] show ?thesis
  proof
    assume "d' = d" then show ?thesis using assms(2,3) by simp
  next
    assume "\<exists>OLD. payment_requests d rid = Some OLD \<and>
            check_payment_request_positive_price_stars p \<and>
            auto_refund_on_payment_cancel v now OLD p
              (d\<lparr>payment_requests := (payment_requests d)(rid \<mapsto> p)\<rparr>) = Inr d'"
    then obtain OLD where a: "auto_refund_on_payment_cancel v now OLD p
              (d\<lparr>payment_requests := (payment_requests d)(rid \<mapsto> p)\<rparr>) = Inr d'" by blast
    from auto_refund_cases[OF a] show ?thesis
      using assms(2,3) by (cases "uid = pr_user_id p") auto
  qed
qed

lemma exec_transactions:
  assumes "exec v op d = Inr d'"
  shows "\<exists>ts. transactions d' = transactions d @ ts \<and>
           (\<forall>t \<in> set ts. check_valid_transaction_amounts t \<and> check_positive_balance_after t)"
proof (cases op)
  case (Insert_user u x)
  with assms have "transactions d' = transactions d" by (auto dest: insert_user_Inr)
  then show ?thesis by simp
next
  case (Update_balance u x)
  with assms have "update_users_balance u (\<lambda>_. x) d = Inr d'" by simp
  from update_users_balance_Inr[OF this] have "transactions d' = transactions d" by auto
  then show ?thesis by simp
next
  case (Insert_transaction t)
  with assms have "insert_transaction v t d = Inr d'" by simp
  from insert_transaction_Inr[OF this] show ?thesis by simp
next
  case (Insert_payment_request rid p)
  with assms have "transactions d' = transactions d"
    by (auto simp: insert_payment_request_def split: if_splits sum.splits)
  then show ?thesis by simp
next
  case (Update_payment_request now rid p)
  with assms have u: "update_payment_request v now rid p d = Inr d'" by simp
  from update_payment_request_Inr[OF u] show ?thesis
  proof
    assume "d' = d" then show ?thesis by simp
  next
    assume "\<exists>OLD. payment_requests d rid = Some OLD \<and>
            check_payment_request_positive_price_stars p \<and>
            auto_refund_on_payment_cancel v now OLD p
              (d\<lparr>payment_requests := (payment_requests d)(rid \<mapsto> p)\<rparr>) = Inr d'"
    then obtain OLD where pos: "check_payment_request_positive_price_stars p" and
      a: "auto_refund_on_payment_cancel v now OLD p
              (d\<lparr>payment_requests := (payment_requests d)(rid \<mapsto> p)\<rparr>) = Inr d'" by blast
    from auto_refund_cases[OF a] show ?thesis
    proof
      assume "d' = d\<lparr>payment_requests := (payment_requests d)(rid \<mapsto> p)\<rparr>"
      then show ?thesis by simp
    next
      assume "\<exists>b. users (d\<lparr>payment_requests := (payment_requests d)(rid \<mapsto> p)\<rparr>) (pr_user_id p) = Some b \<and>
          users d' = (users (d\<lparr>payment_requests := (payment_requests d)(rid \<mapsto> p)\<rparr>))(pr_user_id p \<mapsto> b + pr_price_stars p) \<and>
          0 \<le> b + pr_price_stars p \<and> b + pr_price_stars p \<le> 99999999999 \<and>
          transactions d' = transactions (d\<lparr>payment_requests := (payment_requests d)(rid \<mapsto> p)\<rparr>) @
               [\<lparr> tx_user_id = pr_user_id p, tx_game_id = None, tx_type = ''refund'',
                  tx_amount = pr_price_stars p, tx_balance_after = b + pr_price_stars p,
                  tx_multiplier = None, tx_status = Some ''completed'', tx_created_at = now \<rparr>]"
      then show ?thesis using pos
        by (auto simp: check_valid_transaction_amounts_def check_positive_balance_after_def
            check_payment_request_positive_price_stars_def)
    qed
  qed
qed

lemma run_snoc: "run v (ops @ [op]) = commit v (run v ops) op"
  by (simp add: run_def)

lemma run_users_bounds:
  "users (run v ops) uid = Some b \<Longrightarrow> 0 \<le> b \<and> b \<le> 99999999999"
proof (induction ops arbitrary: uid b rule: rev_induct)
  case Nil
  then show ?case by (simp add: run_def empty_db_def)
next
  case (snoc op ops)
  show ?case
  proof (cases "exec v op (run v ops)")
    case (Inl e)
    then show ?thesis using snoc by (simp add: run_snoc commit_def)
  next
    case (Inr d')
    then have "users d' uid = Some b" using snoc.prems by (simp add: run_snoc commit_def)
    from exec_users_bounds[OF Inr snoc.IH this] show ?thesis .
  qed
qed

lemma run_transactions_checked:
  "t \<in> set (transactions (run v ops)) \<Longrightarrow>
     check_valid_transaction_amounts t \<and> check_positive_balance_after t"
proof (induction ops arbitrary: t rule: rev_induct)
  case Nil
  then show ?case by (simp add: run_def empty_db_def)
next
  case (snoc op ops)
  show ?case
  proof (cases "exec v op (run v ops)")
    case (Inl e)
    then show ?thesis using snoc by (simp add: run_snoc commit_def)
  next
    case (Inr d')
    from exec_transactions[OF Inr] obtain ts where
      "transactions d' = transactions (run v ops) @ ts"
      "\<forall>t \<in> set ts. check_valid_transaction_amounts t \<and> check_positive_balance_after t" by blast
    then show ?thesis using snoc Inr by (auto simp: run_snoc commit_def)
  qed
qed


text \<open>
  C2. After any sequence of statements (each committed or rolled back as a whole), every
  user's balance lies in [0, 999999999.99] and every ledger row has a non-negative
  \<^verbatim>\<open>balance_after\<close>. Every prefix of a sequence is a sequence, so this holds at every
  instant between statements.
\<close>

theorem balance_within_cap:
  "(\<forall>uid b. users (run v ops) uid = Some b \<longrightarrow> 0 \<le> b \<and> b \<le> 99999999999) \<and>
   (\<forall>t \<in> set (transactions (run v ops)). tx_balance_after t \<ge> 0)"
  using run_users_bounds[of v ops] run_transactions_checked[of _ v ops]
  by (auto simp: check_positive_balance_after_def)

theorem balance_within_cap_witness:
  "users (run Migration_version
        [Insert_user 1 5000,
         Update_balance 1 (- 1),
         Update_balance 1 100000000000,
         Insert_transaction \<lparr> tx_user_id = 1, tx_game_id = None, tx_type = ''deposit'',
            tx_amount = 100, tx_balance_after = - 5, tx_multiplier = None,
            tx_status = Some ''completed'', tx_created_at = 10 \<rparr>,
         Insert_transaction \<lparr> tx_user_id = 1, tx_game_id = None, tx_type = ''deposit'',
            tx_amount = 100, tx_balance_after = 5100, tx_multiplier = None,
            tx_status = Some ''completed'', tx_created_at = 11 \<rparr>,
         Update_balance 1 99999999999]) 1 = Some 99999999999 \<and>
   (0 :: int) \<le> 99999999999 \<and> (99999999999 :: int) \<le> 99999999999 \<and>
   map tx_balance_after (transactions (run Migration_version
        [Insert_user 1 5000,
         Update_balance 1 (- 1),
         Update_balance 1 100000000000,
         Insert_transaction \<lparr> tx_user_id = 1, tx_game_id = None, tx_type = ''deposit'',
            tx_amount = 100, tx_balance_after = - 5, tx_multiplier = None,
            tx_status = Some ''completed'', tx_created_at = 10 \<rparr>,
         Insert_transaction \<lparr> tx_user_id = 1, tx_game_id = None, tx_type = ''deposit'',
            tx_amount = 100, tx_balance_after = 5100, tx_multiplier = None,
            tx_status = Some ''completed'', tx_created_at = 11 \<rparr>,
         Update_balance 1 99999999999])) = [5100]"
proof -
  let ?ops = "[Insert_user 1 5000,
         Update_balance 1 (- 1),
         Update_balance 1 100000000000,
         Insert_transaction \<lparr> tx_user_id = 1, tx_game_id = None, tx_type = ''deposit'',
            tx_amount = 100, tx_balance_after = - 5, tx_multiplier = None,
            tx_status = Some ''completed'', tx_created_at = 10 \<rparr>,
         Insert_transaction \<lparr> tx_user_id = 1, tx_game_id = None, tx_type = ''deposit'',
            tx_amount = 100, tx_balance_after = 5100, tx_multiplier = None,
            tx_status = Some ''completed'', tx_created_at = 11 \<rparr>,
         Update_balance 1 99999999999]"
  have a: "users (run Migration_version ?ops) 1 = Some 99999999999" by code_simp
  have b: "map tx_balance_after (transactions (run Migration_version ?ops)) = [5100]"
    by code_simp
  from balance_within_cap[of Migration_version ?ops] a
  have "(0 :: int) \<le> 99999999999 \<and> (99999999999 :: int) \<le> 99999999999" by blast
  with a b show ?thesis by blast
qed

text \<open>
  The constraint of the promo-code migration is the schema's constraint together with the
  sign rule for \<^verbatim>\<open>promo_code_bonus\<close>.
\<close>

lemma check_valid_transaction_amounts_migration:
  "check_valid_transaction_amounts t =
     (check_valid_transaction_amounts_schema t \<and>
      (tx_type t = ''promo_code_bonus'' \<longrightarrow> tx_amount t > 0))"
proof (cases "tx_type t = ''promo_code_bonus''")
  case True
  then show ?thesis
    by (simp add: check_valid_transaction_amounts_def check_valid_transaction_amounts_schema_def)
next
  case False
  then show ?thesis
    unfolding check_valid_transaction_amounts_def check_valid_transaction_amounts_schema_def
    by (simp only: insert_iff empty_iff simp_thms)
qed

text \<open>
  C4. Every committed ledger row has the sign of its kind: \<^verbatim>\<open>game_win\<close>,
  \<^verbatim>\<open>deposit\<close>, \<^verbatim>\<open>referral_bonus\<close>, \<^verbatim>\<open>refund\<close> and
  \<^verbatim>\<open>promo_code_bonus\<close> rows have a strictly positive amount, \<^verbatim>\<open>game_loss\<close> and
  \<^verbatim>\<open>gift_purchase\<close> rows a strictly negative one.
\<close>

theorem ledger_amount_sign_matches_kind:
  "\<forall>t \<in> set (transactions (run v ops)).
     (tx_type t \<in> {''game_win'', ''deposit'', ''referral_bonus'', ''refund'', ''promo_code_bonus''}
        \<longrightarrow> tx_amount t > 0) \<and>
     (tx_type t \<in> {''game_loss'', ''gift_purchase''} \<longrightarrow> tx_amount t < 0)"
proof
  fix t assume "t \<in> set (transactions (run v ops))"
  then have c: "check_valid_transaction_amounts t" using run_transactions_checked by blast
  have p: "tx_type t \<in> {''game_win'', ''deposit'', ''referral_bonus'', ''refund'', ''promo_code_bonus''}
        \<longrightarrow> tx_amount t > 0"
    using c unfolding check_valid_transaction_amounts_def by auto
  have n: "tx_type t \<in> {''game_loss'', ''gift_purchase''} \<longrightarrow> tx_amount t < 0"
    using c unfolding check_valid_transaction_amounts_def by auto
  from p n show "(tx_type t \<in> {''game_win'', ''deposit'', ''referral_bonus'', ''refund'', ''promo_code_bonus''}
        \<longrightarrow> tx_amount t > 0) \<and>
     (tx_type t \<in> {''game_loss'', ''gift_purchase''} \<longrightarrow> tx_amount t < 0)" ..
qed

theorem ledger_amount_sign_witness:
  "map (\<lambda>t. (tx_type t, tx_amount t)) (transactions (run Migration_version
        [Insert_user 1 5000,
         Insert_transaction \<lparr> tx_user_id = 1, tx_game_id = None, tx_type = ''promo_code_bonus'',
            tx_amount = - 100, tx_balance_after = 4900, tx_multiplier = None,
            tx_status = Some ''completed'', tx_created_at = 10 \<rparr>,
         Insert_transaction \<lparr> tx_user_id = 1, tx_game_id = None, tx_type = ''promo_code_bonus'',
            tx_amount = 100, tx_balance_after = 5100, tx_multiplier = None,
            tx_status = Some ''completed'', tx_created_at = 11 \<rparr>,
         Insert_transaction \<lparr> tx_user_id = 1, tx_game_id = Some 3, tx_type = ''game_loss'',
            tx_amount = 500, tx_balance_after = 4600, tx_multiplier = None,
            tx_status = Some ''completed'', tx_created_at = 12 \<rparr>,
         Insert_transaction \<lparr> tx_user_id = 1, tx_game_id = Some 3, tx_type = ''game_loss'',
            tx_amount = - 500, tx_balance_after = 4600, tx_multiplier = None,
            tx_status = Some ''completed'', tx_created_at = 13 \<rparr>]))
     = [(''promo_code_bonus'', 100), (''game_loss'', - 500)] \<and>
   (0 :: int) < 100 \<and> (- 500 :: int) < 0"
proof -
  let ?ops = "[Insert_user 1 5000,
         Insert_transaction \<lparr> tx_user_id = 1, tx_game_id = None, tx_type = ''promo_code_bonus'',
            tx_amount = - 100, tx_balance_after = 4900, tx_multiplier = None,
            tx_status = Some ''completed'', tx_created_at = 10 \<rparr>,
         Insert_transaction \<lparr> tx_user_id = 1, tx_game_id = None, tx_type = ''promo_code_bonus'',
            tx_amount = 100, tx_balance_after = 5100, tx_multiplier = None,
            tx_status = Some ''completed'', tx_created_at = 11 \<rparr>,
         Insert_transaction \<lparr> tx_user_id = 1, tx_game_id = Some 3, tx_type = ''game_loss'',
            tx_amount = 500, tx_balance_after = 4600, tx_multiplier = None,
            tx_status = Some ''completed'', tx_created_at = 12 \<rparr>,
         Insert_transaction \<lparr> tx_user_id = 1, tx_game_id = Some 3, tx_type = ''game_loss'',
            tx_amount = - 500, tx_balance_after = 4600, tx_multiplier = None,
            tx_status = Some ''completed'', tx_created_at = 13 \<rparr>]"
  have a: "transactions (run Migration_version ?ops) =
      [\<lparr> tx_user_id = 1, tx_game_id = None, tx_type = ''promo_code_bonus'',
            tx_amount = 100, tx_balance_after = 5100, tx_multiplier = None,
            tx_status = Some ''completed'', tx_created_at = 11 \<rparr>,
       \<lparr> tx_user_id = 1, tx_game_id = Some 3, tx_type = ''game_loss'',
            tx_amount = - 500, tx_balance_after = 4600, tx_multiplier = None,
            tx_status = Some ''completed'', tx_created_at = 13 \<rparr>]"
    by code_simp
  from ledger_amount_sign_matches_kind[of Migration_version ?ops]
  have "(0 :: int) < 100 \<and> (- 500 :: int) < 0" unfolding a by simp
  then show ?thesis unfolding a by simp
qed

section \<open>The refund trigger\<close>

lemma round_half_away_2_nonneg: "0 \<le> n \<Longrightarrow> round_half_away n 2 = (n + 1) div 2"
  by (cases "n = 0") (auto simp: round_half_away_def sgn_if)

lemma round_half_away_2_neg: "n < 0 \<Longrightarrow> round_half_away n 2 < 0"
proof -
  assume "n < 0"
  then have "(2 * \<bar>n\<bar> + 2) div 4 > 0" by simp
  then show ?thesis using \<open>n < 0\<close> by (simp add: round_half_away_def sgn_if)
qed

lemma restore_wagered_balance_amount:
  assumes "restore_wagered_balance uid p d = Inr d'" "user_stats d uid = Some r"
  shows "\<exists>r'. user_stats d' uid = Some r' \<and>
           r' = r\<lparr>wagered_balance := wagered_balance r + (p + 1) div 2\<rparr>"
proof -
  let ?w = "round_half_away (2 * wagered_balance r + p) 2"
  from assms have w: "write_user_stats uid (r\<lparr>wagered_balance := ?w\<rparr>) d = Inr d'"
    by (simp add: restore_wagered_balance_def)
  from write_user_stats_Inr[OF w] have d': "d' = d\<lparr>user_stats := (user_stats d)(uid \<mapsto> r\<lparr>wagered_balance := ?w\<rparr>)\<rparr>"
    and "check_stats_logical (r\<lparr>wagered_balance := ?w\<rparr>)" by simp_all
  then have "0 \<le> ?w" by (simp add: check_stats_logical_def)
  then have "0 \<le> 2 * wagered_balance r + p" using round_half_away_2_neg[of "2 * wagered_balance r + p"]
    by linarith
  then have "?w = wagered_balance r + (p + 1) div 2"
    by (simp add: round_half_away_2_nonneg)
  then show ?thesis using d' by simp
qed

lemma update_payment_request_not_newly_canceled:
  assumes "update_payment_request v now rid NEW d = Inr d'"
    and "payment_requests d rid = Some OLD"
    and "\<not> (pr_status NEW = Some ''canceled'' \<and> (\<exists>s. pr_status OLD = Some s \<and> s \<noteq> ''canceled''))"
  shows "users d' = users d \<and> user_stats d' = user_stats d \<and> transactions d' = transactions d"
proof -
  from update_payment_request_Inr[OF assms(1)] assms(2)
  have "d' = d \<or> auto_refund_on_payment_cancel v now OLD NEW
              (d\<lparr>payment_requests := (payment_requests d)(rid \<mapsto> NEW)\<rparr>) = Inr d'" by auto
  then show ?thesis
  proof
    assume "d' = d" then show ?thesis by simp
  next
    assume "auto_refund_on_payment_cancel v now OLD NEW
              (d\<lparr>payment_requests := (payment_requests d)(rid \<mapsto> NEW)\<rparr>) = Inr d'"
    with auto_refund_not_taken[OF assms(3)]
    have "d' = d\<lparr>payment_requests := (payment_requests d)(rid \<mapsto> NEW)\<rparr>" by simp
    then show ?thesis by simp
  qed
qed

lemma update_payment_request_newly_canceled:
  assumes "update_payment_request v now rid NEW d = Inr d'"
    and "payment_requests d rid = Some OLD"
    and "pr_status NEW = Some ''canceled''" "pr_status OLD = Some s" "s \<noteq> ''canceled''"
  shows "\<exists>b. users d (pr_user_id NEW) = Some b \<and>
             users d' = (users d)(pr_user_id NEW \<mapsto> b + pr_price_stars NEW) \<and>
             (case user_stats d (pr_user_id NEW) of
                None \<Rightarrow> user_stats d' = user_stats d
              | Some r \<Rightarrow> user_stats d' = (user_stats d)(pr_user_id NEW \<mapsto>
                    r\<lparr>wagered_balance := wagered_balance r + (pr_price_stars NEW + 1) div 2\<rparr>)) \<and>
             transactions d' = transactions d @
               [\<lparr> tx_user_id = pr_user_id NEW, tx_game_id = None, tx_type = ''refund'',
                  tx_amount = pr_price_stars NEW, tx_balance_after = b + pr_price_stars NEW,
                  tx_multiplier = None, tx_status = Some ''completed'', tx_created_at = now \<rparr>]"
proof -
  let ?d0 = "d\<lparr>payment_requests := (payment_requests d)(rid \<mapsto> NEW)\<rparr>"
  from assms(1,2) have a: "auto_refund_on_payment_cancel v now OLD NEW ?d0 = Inr d'"
    by (auto simp: update_payment_request_def split: sum.splits)
  from auto_refund_taken[OF assms(3,4,5) a] obtain b where
    b: "users d (pr_user_id NEW) = Some b"
       "users d' = (users d)(pr_user_id NEW \<mapsto> b + pr_price_stars NEW)"
       "user_stats d' =
               (case user_stats d (pr_user_id NEW) of
                  None \<Rightarrow> user_stats d
                | Some r \<Rightarrow> (user_stats d)(pr_user_id NEW \<mapsto>
                     r\<lparr>wagered_balance :=
                         round_half_away (2 * wagered_balance r + pr_price_stars NEW) 2\<rparr>))"
       "transactions d' = transactions d @
               [\<lparr> tx_user_id = pr_user_id NEW, tx_game_id = None, tx_type = ''refund'',
                  tx_amount = pr_price_stars NEW, tx_balance_after = b + pr_price_stars NEW,
                  tx_multiplier = None, tx_status = Some ''completed'', tx_created_at = now \<rparr>]"
    by (cases "user_stats d (pr_user_id NEW)") auto
  have "case user_stats d (pr_user_id NEW) of
                None \<Rightarrow> user_stats d' = user_stats d
              | Some r \<Rightarrow> user_stats d' = (user_stats d)(pr_user_id NEW \<mapsto>
                    r\<lparr>wagered_balance := wagered_balance r + (pr_price_stars NEW + 1) div 2\<rparr>)"
  proof (cases "user_stats d (pr_user_id NEW)")
    case None
    then show ?thesis using b(3) by simp
  next
    case (Some r)
    from assms(3,4,5) a obtain d1 d2 where
      s1: "update_users_balance (pr_user_id NEW) (\<lambda>b. b + pr_price_stars NEW) ?d0 = Inr d1" and
      s2: "restore_wagered_balance (pr_user_id NEW) (pr_price_stars NEW) d1 = Inr d2"
      unfolding auto_refund_on_payment_cancel_def
      by (simp split: sum.splits option.splits)
    from update_users_balance_Inr[OF s1] have "user_stats d1 = user_stats d" by auto
    with Some have "user_stats d1 (pr_user_id NEW) = Some r" by simp
    with s2 have "write_user_stats (pr_user_id NEW)
        (r\<lparr>wagered_balance := round_half_away (2 * wagered_balance r + pr_price_stars NEW) 2\<rparr>) d1
        = Inr d2"
      by (simp add: restore_wagered_balance_def)
    from write_user_stats_Inr[OF this]
    have  "check_stats_logical (r\<lparr>wagered_balance := round_half_away (2 * wagered_balance r + pr_price_stars NEW) 2\<rparr>)"
      by simp
    then have "0 \<le> round_half_away (2 * wagered_balance r + pr_price_stars NEW) 2"
      by (simp add: check_stats_logical_def)
    then have "0 \<le> 2 * wagered_balance r + pr_price_stars NEW"
      using round_half_away_2_neg[of "2 * wagered_balance r + pr_price_stars NEW"] by linarith
    then have "round_half_away (2 * wagered_balance r + pr_price_stars NEW) 2
               = wagered_balance r + (pr_price_stars NEW + 1) div 2"
      by (simp add: round_half_away_2_nonneg)
    then show ?thesis using Some b(3) by simp
  qed
  with b show ?thesis by blast
qed

text \<open>
  C7 (amended). When an update of a payment request commits with the new status
  \<^verbatim>\<open>canceled\<close> and an old status that is not NULL and not \<^verbatim>\<open>canceled\<close>,
  exactly one refund is applied: the balance grows by \<^verbatim>\<open>price_stars\<close>; a user with a
  \<^verbatim>\<open>user_stats\<close> row gets \<^verbatim>\<open>price_stars / 2\<close> rounded to hundredths (half up)
  added to the wagered balance, a user without one has no row to change; and one completed
  \<^verbatim>\<open>refund\<close> row with amount \<^verbatim>\<open>price_stars\<close> and the new balance as
  \<^verbatim>\<open>balance_after\<close> is appended. Every other committed update leaves balances,
  wagered balances and the ledger as they were.
\<close>

theorem auto_refund_on_cancel_effects:
  assumes "payment_requests d rid = Some OLD"
    and "update_payment_request v now rid NEW d = Inr d'"
  shows "if pr_status NEW = Some ''canceled'' \<and> (\<exists>s. pr_status OLD = Some s \<and> s \<noteq> ''canceled'')
         then (\<exists>b. users d (pr_user_id NEW) = Some b \<and>
                 users d' = (users d)(pr_user_id NEW \<mapsto> b + pr_price_stars NEW) \<and>
                 (case user_stats d (pr_user_id NEW) of
                    None \<Rightarrow> user_stats d' = user_stats d
                  | Some r \<Rightarrow> user_stats d' = (user_stats d)(pr_user_id NEW \<mapsto>
                      r\<lparr>wagered_balance :=
                          wagered_balance r + (pr_price_stars NEW + 1) div 2\<rparr>)) \<and>
                 transactions d' = transactions d @
                   [\<lparr> tx_user_id = pr_user_id NEW, tx_game_id = None, tx_type = ''refund'',
                      tx_amount = pr_price_stars NEW,
                      tx_balance_after = b + pr_price_stars NEW,
                      tx_multiplier = None, tx_status = Some ''completed'',
                      tx_created_at = now \<rparr>])
         else users d' = users d \<and> user_stats d' = user_stats d \<and>
              transactions d' = transactions d"
proof (cases "pr_status NEW = Some ''canceled'' \<and> (\<exists>s. pr_status OLD = Some s \<and> s \<noteq> ''canceled'')")
  case True
  then obtain s where "pr_status NEW = Some ''canceled''" "pr_status OLD = Some s" "s \<noteq> ''canceled''"
    by blast
  from update_payment_request_newly_canceled[OF assms(2,1) this] True show ?thesis by simp
next
  case False
  from update_payment_request_not_newly_canceled[OF assms(2,1) False] False show ?thesis by simp
qed

text \<open>
  C7 as stated fails: a canceled request of 15.01 stars raises the wagered balance from
  100.00 to 107.51, by 7.51 and not by 7.505.
\<close>

theorem refund_wagered_balance_counterexample:
  "map_option pr_status (payment_requests refund_example_before 1) = Some (Some ''pending'') \<and>
   map_option wagered_balance (user_stats refund_example_before 7) = Some 10000 \<and>
   \<not> isl (update_payment_request Migration_version 20 1 refund_example_cancel refund_example_before) \<and>
   map_option wagered_balance
     (user_stats (projr (update_payment_request Migration_version 20 1 refund_example_cancel
                           refund_example_before)) 7) = Some 10751 \<and>
   2 * (10751 - 10000) \<noteq> pr_price_stars refund_example_cancel"
  by code_simp

theorem auto_refund_on_cancel_witness:
  "payment_requests refund_example_before 1 =
      Some \<lparr> pr_user_id = 7, pr_gift_id = ''tophat'', pr_price = 2930,
            pr_price_stars = 1501, pr_status = Some ''pending'', pr_cancel_reason = None \<rparr> \<and>
   \<not> isl (update_payment_request Migration_version 20 1 refund_example_cancel refund_example_before) \<and>
   users refund_example_before 7 = Some 200000 \<and>
   users (projr (update_payment_request Migration_version 20 1 refund_example_cancel
                   refund_example_before)) 7 = Some 201501 \<and>
   transactions (projr (update_payment_request Migration_version 20 1 refund_example_cancel
                   refund_example_before)) =
     transactions refund_example_before @
       [\<lparr> tx_user_id = 7, tx_game_id = None, tx_type = ''refund'',
          tx_amount = 1501, tx_balance_after = 201501,
          tx_multiplier = None, tx_status = Some ''completed'', tx_created_at = 20 \<rparr>]"
proof -
  let ?old = "\<lparr> pr_user_id = 7, pr_gift_id = ''tophat'', pr_price = 2930,
            pr_price_stars = 1501, pr_status = Some ''pending'', pr_cancel_reason = None \<rparr>"
  let ?res = "update_payment_request Migration_version 20 1 refund_example_cancel refund_example_before"
  have h1: "payment_requests refund_example_before 1 = Some ?old" by code_simp
  have ok: "\<not> isl ?res" by code_simp
  then have h2: "?res = Inr (projr ?res)" by simp
  have u: "users refund_example_before 7 = Some 200000" by code_simp
  have c: "pr_status refund_example_cancel = Some ''canceled''"
    "pr_user_id refund_example_cancel = 7" "pr_price_stars refund_example_cancel = 1501"
    by (simp_all add: refund_example_cancel_def)
  from auto_refund_on_cancel_effects[OF h1 h2] c u
  have "users (projr ?res) = (users refund_example_before)(7 \<mapsto> 201501) \<and>
        transactions (projr ?res) = transactions refund_example_before @
       [\<lparr> tx_user_id = 7, tx_game_id = None, tx_type = ''refund'',
          tx_amount = 1501, tx_balance_after = 201501,
          tx_multiplier = None, tx_status = Some ''completed'', tx_created_at = 20 \<rparr>]"
    by simp
  with h1 ok u show ?thesis by simp
qed

section \<open>The two versions of the statistics trigger\<close>

lemma trigger_versions_agree:
  assumes "\<not> (tx_type NEW = ''game_win'' \<and>
              (\<exists>r. user_stats d (tx_user_id NEW) = Some r \<and> games_won r < total_games r))"
  shows "update_user_stats_on_transaction Schema_version NEW d =
         update_user_stats_on_transaction Migration_version NEW d"
proof (cases "tx_type NEW = ''game_win''")
  case False
  then show ?thesis
    by (simp add: update_user_stats_on_transaction_def upsert_user_stats_def Let_def
        split: sum.splits option.splits)
next
  case True
  show ?thesis
  proof (cases "user_stats d (tx_user_id NEW)")
    case None
    then show ?thesis using True
      by (simp add: update_user_stats_on_transaction_def upsert_user_stats_def Let_def
        split: sum.splits option.splits)
  next
    case (Some r)
    with assms True have "games_won r \<ge> total_games r" by auto
    then show ?thesis using True Some
      by (simp add: update_user_stats_on_transaction_def upsert_user_stats_def Let_def
        split: sum.splits option.splits)
  qed
qed

lemma trigger_win_row:
  assumes "tx_type NEW = ''game_win''" "user_stats d (tx_user_id NEW) = Some r"
    and "update_user_stats_on_transaction v NEW d = Inr d'"
  shows "\<exists>r'. user_stats d' (tx_user_id NEW) = Some r' \<and>
           total_games r' = (case v of Schema_version \<Rightarrow>
                                   (if games_won r \<ge> total_games r
                                    then total_games r + 1 else total_games r)
                               | Migration_version \<Rightarrow> total_games r + 1) \<and>
           games_won r' = games_won r + 1 \<and> games_lost r' = games_lost r"
proof -
  from assms obtain row where w: "write_user_stats (tx_user_id NEW) row d = Inr d'"
    and row: "total_games row = (case v of Schema_version \<Rightarrow>
                                   (if games_won r \<ge> total_games r
                                    then total_games r + 1 else total_games r)
                               | Migration_version \<Rightarrow> total_games r + 1)"
       "games_won row = games_won r + 1" "games_lost row = games_lost r"
    unfolding update_user_stats_on_transaction_def Let_def
    by (auto split: sum.splits dest!: upsert_user_stats_Inr)
  from write_user_stats_Inr[OF w] row show ?thesis by simp
qed

text \<open>
  C9. For a \<^verbatim>\<open>game_win\<close> row of a user whose statistics have
  \<open>games_won < total_games\<close>, the schema's trigger leaves \<open>total_games\<close> as it is and
  the migration's trigger adds one (whenever both commit); on a \<^verbatim>\<open>game_loss\<close> row
  the two functions are equal.
\<close>

theorem trigger_versions_inconsistent:
  "(tx_type NEW = ''game_win'' \<and> user_stats d (tx_user_id NEW) = Some r \<and>
    games_won r < total_games r \<and>
    update_user_stats_on_transaction Schema_version NEW d = Inr d1 \<and>
    update_user_stats_on_transaction Migration_version NEW d = Inr d2
    \<longrightarrow> map_option total_games (user_stats d1 (tx_user_id NEW)) = Some (total_games r) \<and>
        map_option total_games (user_stats d2 (tx_user_id NEW)) = Some (total_games r + 1)) \<and>
   (tx_type NEW = ''game_loss''
    \<longrightarrow> update_user_stats_on_transaction Schema_version NEW d =
        update_user_stats_on_transaction Migration_version NEW d)"
proof (intro conjI impI)
  assume a: "tx_type NEW = ''game_win'' \<and> user_stats d (tx_user_id NEW) = Some r \<and>
    games_won r < total_games r \<and>
    update_user_stats_on_transaction Schema_version NEW d = Inr d1 \<and>
    update_user_stats_on_transaction Migration_version NEW d = Inr d2"
  then have w: "tx_type NEW = ''game_win''" and r: "user_stats d (tx_user_id NEW) = Some r"
    and lt: "games_won r < total_games r"
    and s: "update_user_stats_on_transaction Schema_version NEW d = Inr d1"
    and m: "update_user_stats_on_transaction Migration_version NEW d = Inr d2" by simp_all
  from trigger_win_row[OF w r s] lt
  show "map_option total_games (user_stats d1 (tx_user_id NEW)) = Some (total_games r)" by auto
  from trigger_win_row[OF w r m]
  show "map_option total_games (user_stats d2 (tx_user_id NEW)) = Some (total_games r + 1)" by auto
next
  assume "tx_type NEW = ''game_loss''"
  then have "\<not> (tx_type NEW = ''game_win'' \<and>
              (\<exists>r. user_stats d (tx_user_id NEW) = Some r \<and> games_won r < total_games r))" by simp
  from trigger_versions_agree[OF this]
  show "update_user_stats_on_transaction Schema_version NEW d =
        update_user_stats_on_transaction Migration_version NEW d" .
qed

theorem trigger_versions_inconsistent_witness:
  "tx_type stats_example_win = ''game_win'' \<and>
   user_stats stats_example_db 1 =
     Some \<lparr> total_games = 1, games_won = 0, games_lost = 1, total_wagered = 1000,
            total_won = 0, wagered_balance = 0, best_multiplier = 0, avg_multiplier = 0 \<rparr> \<and>
   (0 :: int) < 1 \<and>
   \<not> isl (update_user_stats_on_transaction Schema_version stats_example_win stats_example_db) \<and>
   \<not> isl (update_user_stats_on_transaction Migration_version stats_example_win stats_example_db) \<and>
   map_option total_games (user_stats (projr (update_user_stats_on_transaction Schema_version
        stats_example_win stats_example_db)) 1) = Some 1 \<and>
   map_option total_games (user_stats (projr (update_user_stats_on_transaction Migration_version
        stats_example_win stats_example_db)) 1) = Some 2 \<and>
   update_user_stats_on_transaction Schema_version
      (stats_example_win\<lparr>tx_type := ''game_loss'', tx_amount := - 3000\<rparr>) stats_example_db =
   update_user_stats_on_transaction Migration_version
      (stats_example_win\<lparr>tx_type := ''game_loss'', tx_amount := - 3000\<rparr>) stats_example_db"
proof -
  let ?r = "\<lparr> total_games = 1, games_won = 0, games_lost = 1, total_wagered = 1000,
            total_won = 0, wagered_balance = 0, best_multiplier = 0, avg_multiplier = 0 \<rparr>"
  let ?s = "update_user_stats_on_transaction Schema_version stats_example_win stats_example_db"
  let ?m = "update_user_stats_on_transaction Migration_version stats_example_win stats_example_db"
  have w: "tx_type stats_example_win = ''game_win''" "tx_user_id stats_example_win = 1"
    by (simp_all add: stats_example_win_def)
  have r: "user_stats stats_example_db 1 = Some ?r" by code_simp
  have s: "\<not> isl ?s" by code_simp
  have m: "\<not> isl ?m" by code_simp
  from s have s': "?s = Inr (projr ?s)" by simp
  from m have m': "?m = Inr (projr ?m)" by simp
  from trigger_versions_inconsistent[of stats_example_win stats_example_db ?r "projr ?s" "projr ?m"]
    w r s' m'
  have d: "map_option total_games (user_stats (projr ?s) 1) = Some 1 \<and>
        map_option total_games (user_stats (projr ?m) 1) = Some 2" by simp
  have l: "tx_type (stats_example_win\<lparr>tx_type := ''game_loss'', tx_amount := - 3000\<rparr>) = ''game_loss''"
    by simp
  from trigger_versions_inconsistent[of "stats_example_win\<lparr>tx_type := ''game_loss'', tx_amount := - 3000\<rparr>"
      stats_example_db] l
  have e: "update_user_stats_on_transaction Schema_version
      (stats_example_win\<lparr>tx_type := ''game_loss'', tx_amount := - 3000\<rparr>) stats_example_db =
   update_user_stats_on_transaction Migration_version
      (stats_example_win\<lparr>tx_type := ''game_loss'', tx_amount := - 3000\<rparr>) stats_example_db"
    by blast
  from w r s m d e show ?thesis by simp
qed


section \<open>The unique index on bets\<close>

text \<open>
  C3. The unique index has \<^verbatim>\<open>created_at\<close> among its key columns: two completed
  \<^verbatim>\<open>game_bet\<close> rows of one user in one round are both accepted when their
  timestamps differ.
\<close>

theorem duplicate_bet_rows_accepted:
  "map (\<lambda>t. (tx_user_id t, tx_game_id t, tx_type t, tx_status t, tx_created_at t))
     (transactions (run Migration_version
        [Insert_user 1 100000,
         Insert_transaction \<lparr> tx_user_id = 1, tx_game_id = Some 5, tx_type = ''game_bet'',
            tx_amount = - 1000, tx_balance_after = 99000, tx_multiplier = None,
            tx_status = Some ''completed'', tx_created_at = 100 \<rparr>,
         Insert_transaction \<lparr> tx_user_id = 1, tx_game_id = Some 5, tx_type = ''game_bet'',
            tx_amount = - 1000, tx_balance_after = 98000, tx_multiplier = None,
            tx_status = Some ''completed'', tx_created_at = 101 \<rparr>]))
   = [(1, Some 5, ''game_bet'', Some ''completed'', 100),
      (1, Some 5, ''game_bet'', Some ''completed'', 101)]"
  by code_simp

text \<open>Only a second row with the very same timestamp is refused.\<close>

lemma same_instant_bet_rejected:
  "(\<lambda>res. isl res \<and> projl res = unique_violation ''idx_unique_user_game_bet'')
    (insert_transaction Migration_version
      \<lparr> tx_user_id = 1, tx_game_id = Some 5, tx_type = ''game_bet'',
            tx_amount = - 1000, tx_balance_after = 98000, tx_multiplier = None,
            tx_status = Some ''completed'', tx_created_at = 100 \<rparr>
      (run Migration_version
        [Insert_user 1 100000,
         Insert_transaction \<lparr> tx_user_id = 1, tx_game_id = Some 5, tx_type = ''game_bet'',
            tx_amount = - 1000, tx_balance_after = 99000, tx_multiplier = None,
            tx_status = Some ''completed'', tx_created_at = 100 \<rparr>]))"
  by code_simp

section \<open>Crash point generation\<close>

lemma round_half_even_of_int [simp]: "round_half_even (of_int k) = k"
  by (simp add: round_half_even_def)

lemma round_half_even_bounds: "\<lfloor>x\<rfloor> \<le> round_half_even x \<and> round_half_even x \<le> \<lfloor>x\<rfloor> + 1"
  by (simp add: round_half_even_def Let_def)
















section \<open>Store: the wagering gate\<close>

subsection \<open>Rounding to double precision\<close>

lemma bits_bounds: "0 < n \<Longrightarrow> 2 ^ (bits n - 1) \<le> n \<and> n < 2 ^ bits n"
proof (induction n rule: bits.induct)
  case (1 n)
  show ?case
  proof (cases "n = 1")
    case True
    then show ?thesis by (simp add: bits.simps[of 1] bits.simps[of 0])
  next
    case False
    with 1(2) have h: "0 < n div 2" by simp
    with 1(1) 1(2) have ih: "2 ^ (bits (n div 2) - 1) \<le> n div 2 \<and> n div 2 < 2 ^ bits (n div 2)"
      by simp
    have b: "bits n = Suc (bits (n div 2))" using 1(2) by (subst bits.simps) simp
    have pos: "0 < bits (n div 2)" using h by (subst bits.simps) simp
    then have e: "(2::int) ^ bits (n div 2) = 2 * 2 ^ (bits (n div 2) - 1)"
      by (cases "bits (n div 2)") simp_all
    from ih have "2 * 2 ^ (bits (n div 2) - 1) \<le> n" by linarith
    moreover from ih have "n < 2 * 2 ^ bits (n div 2)" by linarith
    ultimately show ?thesis using b e by simp
  qed
qed

lemma bits_pos: "0 < n \<Longrightarrow> 0 < bits n"
  by (subst bits.simps) simp

lemma round_half_even_error: "\<bar>of_int (round_half_even y) - y\<bar> \<le> 1 / 2"
proof -
  define r where "r = y - of_int \<lfloor>y\<rfloor>"
  have r: "0 \<le> r" "r < 1" unfolding r_def by linarith+
  have y: "y = of_int \<lfloor>y\<rfloor> + r" unfolding r_def by simp
  have "round_half_even y = \<lfloor>y\<rfloor> \<and> r \<le> 1 / 2 \<or> round_half_even y = \<lfloor>y\<rfloor> + 1 \<and> 1 / 2 \<le> r"
    unfolding round_half_even_def Let_def r_def[symmetric] by auto
  then show ?thesis
  proof
    assume "round_half_even y = \<lfloor>y\<rfloor> \<and> r \<le> 1 / 2"
    then show ?thesis using r by (subst (2) y) simp
  next
    assume "round_half_even y = \<lfloor>y\<rfloor> + 1 \<and> 1 / 2 \<le> r"
    then show ?thesis using r by (subst (2) y) simp
  qed
qed

lemma pow2_nat: "(2::rat) powi (int k) = 2 ^ k"
  by (simp add: power_int_def)

lemma pow2_neg_nat: "(2::rat) powi (- int k) = 1 / 2 ^ k"
  by (simp add: power_int_def inverse_eq_divide power_one_over)

lemma pow2_pos: "0 < (2::rat) powi e"
  by (simp add: zero_less_power_int)

lemma pow2_Suc: "(2::rat) powi (e + 1) = 2 * 2 powi e"
  by (simp add: power_int_add)

lemma pow2_mono: "a \<le> b \<Longrightarrow> (2::rat) powi a \<le> 2 powi b"
  by (rule power_int_increasing) simp_all

lemma pow2_strict_mono: "a < b \<Longrightarrow> (2::rat) powi a < 2 powi b"
  by (rule power_int_strict_increasing) simp_all

lemma binade_spec:
  assumes "x \<noteq> 0"
  shows "2 powi binade x \<le> \<bar>x\<bar> \<and> \<bar>x\<bar> < 2 powi (binade x + 1)"
proof (cases "1 \<le> \<bar>x\<bar>")
  case True
  define n where "n = \<lfloor>\<bar>x\<bar>\<rfloor>"
  have n1: "1 \<le> n" unfolding n_def using True by (simp add: le_floor_iff)
  from bits_bounds[of n] n1 have b: "2 ^ (bits n - 1) \<le> n" "n < 2 ^ bits n" by simp_all
  from bits_pos[of n] n1 obtain k where k: "bits n = Suc k" by (cases "bits n") simp_all
  have e: "binade x = int k" using True k by (simp add: binade_def n_def)
  have lo: "of_int n \<le> \<bar>x\<bar>" unfolding n_def by simp
  have hi: "\<bar>x\<bar> < of_int n + 1" unfolding n_def by linarith
  from b(1) k have "(2::int) ^ k \<le> n" by simp
  then have "(2::rat) ^ k \<le> of_int n" by simp
  then have l: "(2::rat) ^ k \<le> \<bar>x\<bar>" using lo by linarith
  from b(2) k have "n + 1 \<le> 2 ^ Suc k" by simp
  then have "(of_int (n + 1) :: rat) \<le> 2 ^ Suc k" by (simp only: of_int_le_numeral_power_cancel_iff)
  then have "(of_int n :: rat) + 1 \<le> 2 ^ Suc k" by simp
  then have h: "\<bar>x\<bar> < 2 ^ Suc k" using hi by linarith
  have "int k + 1 = int (Suc k)" by simp
  then have "(2::rat) powi (int k + 1) = 2 ^ Suc k" by (simp only: pow2_nat)
  with l h e show ?thesis by (simp add: pow2_nat)
next
  case False
  define y where "y = 1 / \<bar>x\<bar>"
  have xp: "0 < \<bar>x\<bar>" using assms by simp
  have y1: "1 < y" unfolding y_def using False xp by simp
  define n where "n = \<lceil>y\<rceil>"
  have n2: "2 \<le> n" unfolding n_def using y1 by linarith
  from bits_bounds[of "n - 1"] n2 have b: "2 ^ (bits (n - 1) - 1) \<le> n - 1" "n - 1 < 2 ^ bits (n - 1)"
    by simp_all
  from bits_pos[of "n - 1"] n2 obtain k where k: "bits (n - 1) = Suc k"
    by (cases "bits (n - 1)") simp_all
  have e: "binade x = - int (Suc k)" using False k by (simp add: binade_def n_def y_def)
  have lo: "of_int (n - 1) < y" unfolding n_def by linarith
  have hi: "y \<le> of_int n" unfolding n_def by linarith
  from b(1) k have "(2::int) ^ k \<le> n - 1" by simp
  then have "(2::rat) ^ k \<le> of_int (n - 1)" by (simp only: numeral_power_le_of_int_cancel_iff)
  then have l: "(2::rat) ^ k < y" using lo by linarith
  from b(2) k have "n \<le> 2 ^ Suc k" by simp
  then have "(of_int n :: rat) \<le> 2 ^ Suc k" by (simp only: of_int_le_numeral_power_cancel_iff)
  then have h: "y \<le> 2 ^ Suc k" using hi by linarith
  have x: "\<bar>x\<bar> = 1 / y" unfolding y_def by simp
  have yp: "0 < y" using y1 by simp
  have "1 / (2::rat) ^ Suc k \<le> 1 / y" using h yp by (intro divide_left_mono) simp_all
  then have L: "2 powi (- int (Suc k)) \<le> \<bar>x\<bar>" using x by (simp only: pow2_neg_nat)
  have "1 / y < 1 / (2::rat) ^ k" using l yp by (intro divide_strict_left_mono) simp_all
  moreover have "- int (Suc k) + 1 = - int k" by simp
  then have "(2::rat) powi (- int (Suc k) + 1) = 1 / 2 ^ k" by (simp only: pow2_neg_nat)
  ultimately have H: "\<bar>x\<bar> < 2 powi (- int (Suc k) + 1)" using x by simp
  from L H e show ?thesis by simp
qed

lemma binade_unique:
  assumes "x \<noteq> 0" "2 powi k \<le> \<bar>x\<bar>" "\<bar>x\<bar> < 2 powi (k + 1)"
  shows "binade x = k"
proof (rule ccontr)
  assume ne: "binade x \<noteq> k"
  from binade_spec[OF assms(1)] have s: "2 powi binade x \<le> \<bar>x\<bar>" "\<bar>x\<bar> < 2 powi (binade x + 1)"
    by simp_all
  show False
  proof (cases "binade x < k")
    case True
    then have "(2::rat) powi (binade x + 1) \<le> 2 powi k" by (intro pow2_mono) simp
    with s(2) assms(2) show False by linarith
  next
    case False
    with ne have "k + 1 \<le> binade x" by simp
    then have "(2::rat) powi (k + 1) \<le> 2 powi binade x" by (rule pow2_mono)
    with s(1) assms(3) show False by linarith
  qed
qed

text \<open>
  The scaled significand lies in \<open>[2 ^ 52, 2 ^ 53)\<close>.
\<close>

lemma significand_bounds:
  assumes "x \<noteq> 0"
  shows "2 ^ 52 \<le> \<bar>x / 2 powi (binade x - 52)\<bar> \<and> \<bar>x / 2 powi (binade x - 52)\<bar> < 2 ^ 53"
proof -
  let ?e = "binade x - 52"
  have p: "0 < (2::rat) powi ?e" by (rule pow2_pos)
  have a: "\<bar>x / 2 powi ?e\<bar> = \<bar>x\<bar> / 2 powi ?e" using p by (simp add: abs_divide)
  have "binade x = ?e + 52" by simp
  then have "(2::rat) powi binade x = 2 powi ?e * 2 powi 52"
    by (metis power_int_add zero_neq_numeral)
  then have b: "(2::rat) powi binade x = 2 powi ?e * 2 ^ 52" by (simp add: power_int_def)
  have "binade x + 1 = ?e + 53" by simp
  then have "(2::rat) powi (binade x + 1) = 2 powi ?e * 2 powi 53"
    by (metis power_int_add zero_neq_numeral)
  then have c: "(2::rat) powi (binade x + 1) = 2 powi ?e * 2 ^ 53" by (simp add: power_int_def)
  from binade_spec[OF assms] b c have "2 powi ?e * 2 ^ 52 \<le> \<bar>x\<bar>" "\<bar>x\<bar> < 2 powi ?e * 2 ^ 53"
    by simp_all
  then have "2 ^ 52 \<le> \<bar>x\<bar> / 2 powi ?e" "\<bar>x\<bar> / 2 powi ?e < 2 ^ 53"
    using p by (simp_all add: pos_le_divide_eq pos_divide_less_eq mult.commute)
  with a show ?thesis by simp
qed

lemma double_eq:
  "x \<noteq> 0 \<Longrightarrow> double x = of_int (round_half_even (x / 2 powi (binade x - 52))) * 2 powi (binade x - 52)"
  by (simp add: double_def Let_def)

lemma double_pos:
  assumes "0 < x"
  shows "0 < double x"
proof -
  let ?e = "binade x - 52"
  let ?y = "x / 2 powi ?e"
  have x0: "x \<noteq> 0" using assms by simp
  have p: "0 < (2::rat) powi ?e" by (rule pow2_pos)
  have "0 < ?y" using assms p by simp
  with significand_bounds[OF x0] have "(2::rat) ^ 52 \<le> ?y" by linarith
  then have "(of_int (2 ^ 52) :: rat) \<le> ?y" by simp
  then have "2 ^ 52 \<le> \<lfloor>?y\<rfloor>" by (simp only: le_floor_iff)
  moreover have "(0::int) < 2 ^ 52" by simp
  ultimately have "0 < round_half_even ?y" using round_half_even_bounds[of ?y] by linarith
  then have "0 < (of_int (round_half_even ?y) :: rat) * 2 powi ?e" using p by simp
  then show ?thesis by (simp only: double_eq[OF x0])
qed

lemma double_neg:
  assumes "x < 0"
  shows "double x < 0"
proof -
  let ?e = "binade x - 52"
  let ?y = "x / 2 powi ?e"
  have x0: "x \<noteq> 0" using assms by simp
  have p: "0 < (2::rat) powi ?e" by (rule pow2_pos)
  have "?y < 0" using assms p by (simp add: divide_neg_pos)
  with significand_bounds[OF x0] have "?y \<le> - (2 ^ 52)" by linarith
  moreover have "of_int \<lfloor>?y\<rfloor> \<le> ?y" by simp
  ultimately have "(of_int \<lfloor>?y\<rfloor> :: rat) \<le> - (2 ^ 52)" by linarith
  also have "- ((2::rat) ^ 52) = of_int (- (2 ^ 52))" by simp
  finally have "\<lfloor>?y\<rfloor> \<le> - (2 ^ 52)" by (simp only: of_int_le_iff)
  moreover have "(1::int) < 2 ^ 52" by simp
  ultimately have "round_half_even ?y < 0" using round_half_even_bounds[of ?y] by linarith
  then have "(of_int (round_half_even ?y) :: rat) * 2 powi ?e < 0" using p
    by (simp add: mult_neg_pos)
  then show ?thesis by (simp only: double_eq[OF x0])
qed

lemma double_zero [simp]: "double 0 = 0"
  by (simp add: double_def)

lemma double_le_zero_iff: "(double x \<le> 0) = (x \<le> 0)"
proof (cases "0 < x")
  case True
  with double_pos[of x] show ?thesis by simp
next
  case False
  then consider "x = 0" | "x < 0" by fastforce
  then show ?thesis
  proof cases
    case 1
    then show ?thesis by simp
  next
    case 2
    with double_neg[of x] show ?thesis by simp
  qed
qed

lemma double_relative_error: "\<bar>double x - x\<bar> \<le> \<bar>x\<bar> / 2 ^ 53"
proof (cases "x = 0")
  case True
  then show ?thesis by simp
next
  case False
  let ?e = "binade x - 52"
  let ?y = "x / 2 powi ?e"
  let ?m = "of_int (round_half_even ?y) :: rat"
  have p: "0 < (2::rat) powi ?e" by (rule pow2_pos)
  have x: "x = ?y * 2 powi ?e" using p by simp
  have "double x - x = (?m - ?y) * 2 powi ?e"
    using False p by (simp add: double_eq algebra_simps)
  then have "\<bar>double x - x\<bar> = \<bar>?m - ?y\<bar> * 2 powi ?e" using p by (simp add: abs_mult)
  also have "\<dots> \<le> 1 / 2 * 2 powi ?e"
    using round_half_even_error[of ?y] p by (intro mult_right_mono) simp_all
  also have "\<dots> = 2 ^ 52 * 2 powi ?e / 2 ^ 53" by simp
  also have "\<dots> \<le> \<bar>?y\<bar> * 2 powi ?e / 2 ^ 53"
    using significand_bounds[OF False] p by (intro divide_right_mono mult_right_mono) simp_all
  also have "\<bar>?y\<bar> * 2 powi ?e = \<bar>x\<bar>" using p by (simp add: abs_divide)
  finally show ?thesis .
qed

lemma double_representable:
  assumes "\<bar>k\<bar> < 2 ^ 53"
  shows "double (of_int k * 2 powi j) = of_int k * 2 powi j"
proof (cases "k = 0")
  case True
  then show ?thesis by simp
next
  case False
  let ?x = "of_int k * (2::rat) powi j"
  let ?e = "binade ?x - 52"
  have pj: "0 < (2::rat) powi j" by (rule pow2_pos)
  have x0: "?x \<noteq> 0" using False pj by simp
  have "\<bar>?x\<bar> = of_int \<bar>k\<bar> * 2 powi j" using pj by (simp add: abs_mult)
  moreover have "(of_int \<bar>k\<bar> :: rat) < of_int (2 ^ 53)" using assms by (simp only: of_int_less_iff)
  ultimately have "\<bar>?x\<bar> < 2 ^ 53 * 2 powi j" using pj by simp
  moreover have "(2::rat) powi (53 + j) = 2 powi 53 * 2 powi j"
    by (metis power_int_add zero_neq_numeral)
  then have "(2::rat) powi (53 + j) = 2 ^ 53 * 2 powi j" by (simp add: power_int_def)
  ultimately have "\<bar>?x\<bar> < 2 powi (53 + j)" by simp
  with binade_spec[OF x0] have lt: "(2::rat) powi binade ?x < 2 powi (53 + j)" by linarith
  have "binade ?x < 53 + j"
  proof (rule ccontr)
    assume "\<not> binade ?x < 53 + j"
    then have "(2::rat) powi (53 + j) \<le> 2 powi binade ?x" by (intro pow2_mono) simp
    with lt show False by simp
  qed
  then have ej: "0 \<le> j - ?e" by simp
  have "j = ?e + (j - ?e)" by simp
  then have "(2::rat) powi j = 2 powi ?e * 2 powi (j - ?e)"
    by (metis power_int_add zero_neq_numeral)
  also have "(2::rat) powi (j - ?e) = 2 ^ nat (j - ?e)" using ej by (simp add: power_int_def)
  finally have s: "(2::rat) powi j = 2 powi ?e * 2 ^ nat (j - ?e)" .
  have pe: "0 < (2::rat) powi ?e" by (rule pow2_pos)
  have "?x / 2 powi ?e = of_int k * 2 ^ nat (j - ?e)" using pe by (subst s) simp
  also have "\<dots> = of_int (k * 2 ^ nat (j - ?e))" by simp
  finally have y: "?x / 2 powi ?e = of_int (k * 2 ^ nat (j - ?e))" .
  have oi: "(of_int (k * 2 ^ nat (j - ?e)) :: rat) = of_int k * 2 ^ nat (j - ?e)" by simp
  have "double ?x = of_int (round_half_even (?x / 2 powi ?e)) * 2 powi ?e"
    using x0 by (rule double_eq)
  also have "\<dots> = of_int (k * 2 ^ nat (j - ?e)) * 2 powi ?e"
    by (simp only: y round_half_even_of_int)
  also have "\<dots> = of_int k * 2 ^ nat (j - ?e) * 2 powi ?e" by (simp only: oi)
  also have "\<dots> = of_int k * (2 powi ?e * 2 ^ nat (j - ?e))" by (simp only: mult_ac)
  also have "\<dots> = ?x" by (rule arg_cong[where f = "\<lambda>z. of_int k * z", OF s[symmetric]])
  finally show ?thesis .
qed

lemma binade_half: "x \<noteq> 0 \<Longrightarrow> binade (x / 2) = binade x - 1"
proof -
  assume x0: "x \<noteq> 0"
  from binade_spec[OF x0] have s: "2 powi binade x \<le> \<bar>x\<bar>" "\<bar>x\<bar> < 2 powi (binade x + 1)" by simp_all
  have a: "(2::rat) powi binade x = 2 * 2 powi (binade x - 1)" using pow2_Suc[of "binade x - 1"] by simp
  have b: "(2::rat) powi (binade x + 1) = 2 * 2 powi (binade x - 1 + 1)" using pow2_Suc[of "binade x"] by simp
  have "2 powi (binade x - 1) \<le> \<bar>x / 2\<bar>" using s(1) a by simp
  moreover have "\<bar>x / 2\<bar> < 2 powi (binade x - 1 + 1)" using s(2) b by simp
  ultimately show ?thesis using x0 by (intro binade_unique) simp_all
qed

lemma double_half: "double (x / 2) = double x / 2"
proof (cases "x = 0")
  case True
  then show ?thesis by simp
next
  case False
  let ?e = "binade x - 52"
  have h: "binade (x / 2) - 52 = ?e - 1" using binade_half[OF False] by simp
  have p: "(2::rat) powi ?e = 2 * 2 powi (?e - 1)" using pow2_Suc[of "?e - 1"] by simp
  have q: "x / 2 / 2 powi (?e - 1) = x / 2 powi ?e" by (subst p) simp
  have x2: "x / 2 \<noteq> 0" using False by simp
  have "double (x / 2) =
      of_int (round_half_even (x / 2 / 2 powi (binade (x / 2) - 52))) * 2 powi (binade (x / 2) - 52)"
    by (rule double_eq[OF x2])
  also have "\<dots> = of_int (round_half_even (x / 2 / 2 powi (?e - 1))) * 2 powi (?e - 1)"
    by (simp only: h)
  also have "\<dots> = of_int (round_half_even (x / 2 powi ?e)) * 2 powi (?e - 1)" by (simp only: q)
  also have "\<dots> = of_int (round_half_even (x / 2 powi ?e)) * 2 powi ?e / 2" by (subst p) simp
  also have "\<dots> = double x / 2" by (simp only: double_eq[OF False])
  finally show ?thesis .
qed


subsection \<open>The gate\<close>

lemma calculateRequiredWagered_exact:
  "double price = price \<Longrightarrow> calculateRequiredWagered price = price / 2"
  by (simp add: calculateRequiredWagered_def double_half)

lemma max_double_error: "\<bar>max 0 (double d) - max 0 d\<bar> \<le> max 0 d / 2 ^ 53"
proof (cases "d \<le> 0")
  case True
  then have "double d \<le> 0" by (simp add: double_le_zero_iff)
  with True show ?thesis by (simp add: max_def)
next
  case False
  then have d: "0 < d" by simp
  then have "0 < double d" by (rule double_pos)
  with d double_relative_error[of d] show ?thesis by (simp add: max_def)
qed

lemma max_double_zero_iff: "(max 0 (double d) = 0) = (d \<le> 0)"
  using double_le_zero_iff[of d] by (auto simp: max_def)

lemma purchaseGift_posts:
  assumes "gift \<in> set gifts"
  shows "purchaseGift gifts True True (gift_id gift) = Post_purchase_gift (gift_id gift)"
proof (cases "find (\<lambda>g. gift_id g = gift_id gift) gifts")
  case None
  with assms show ?thesis by (auto simp: find_None_iff)
next
  case (Some g)
  then show ?thesis by (simp add: purchaseGift_def)
qed

text \<open>
  C8 (amended). For a price that is a JavaScript number, the required wagered amount is
  exactly \<open>price / 2\<close>, and the missing amount is \<open>max 0 (price / 2 - current)\<close> with the
  difference rounded to the nearest double: it is within a relative \<open>2 ^ - 53\<close> of the exact
  value, equal to it whenever the exact difference is itself a double (\<open>k * 2 ^ j\<close> with
  \<open>\<bar>k\<bar> < 2 ^ 53\<close>), and zero exactly when the wagered balance has reached \<open>price / 2\<close>.
  With the statistics loaded, a wagered balance below \<open>price / 2\<close> disables the purchase
  button whatever the balance is, and a click sends nothing; from \<open>price / 2\<close> on, only the
  balance and a purchase in flight decide. With the statistics not loaded the wagered balance
  plays no part: a confirmed click on the button of a gift the balance covers posts the
  purchase request.
\<close>

theorem wagering_gate:
  "(double price = price \<longrightarrow>
      calculateRequiredWagered price = price / 2 \<and>
      calculateMissingWagered price current = max 0 (double (price / 2 - current)) \<and>
      \<bar>calculateMissingWagered price current - max 0 (price / 2 - current)\<bar>
        \<le> max 0 (price / 2 - current) / 2 ^ 53 \<and>
      ((calculateMissingWagered price current = 0) = (price / 2 \<le> current)) \<and>
      (price / 2 - current = of_int k * 2 powi j \<and> \<bar>k\<bar> < 2 ^ 53 \<longrightarrow>
         calculateMissingWagered price current = max 0 (price / 2 - current)) \<and>
      (current < price / 2 \<longrightarrow> purchase_disabled purchasing raw_balance price (Some current)) \<and>
      (price / 2 \<le> current \<longrightarrow>
         purchase_disabled purchasing raw_balance price (Some current)
           = (purchasing \<or> raw_balance < price)) \<and>
      (gift_price gift = price \<and> st_userStats s = Some current \<and> current < price / 2 \<longrightarrow>
         click_purchase s confirmed telegramInitData gift = None)) \<and>
   purchase_disabled purchasing raw_balance price None = (purchasing \<or> raw_balance < price) \<and>
   (st_userStats s = None \<and> st_purchasing s \<noteq> Some (gift_id gift) \<and>
    gift_price gift \<le> st_balance s \<and> gift \<in> set (st_gifts s) \<longrightarrow>
      click_purchase s True True gift = Some (Post_purchase_gift (gift_id gift)))"
proof (intro conjI impI)
  assume p: "double price = price"
  then have r: "calculateRequiredWagered price = price / 2" by (rule calculateRequiredWagered_exact)
  show "calculateRequiredWagered price = price / 2" by (rule r)
  show m: "calculateMissingWagered price current = max 0 (double (price / 2 - current))"
    by (simp add: calculateMissingWagered_def r)
  show "\<bar>calculateMissingWagered price current - max 0 (price / 2 - current)\<bar>
        \<le> max 0 (price / 2 - current) / 2 ^ 53"
    unfolding m by (rule max_double_error)
  show "(calculateMissingWagered price current = 0) = (price / 2 \<le> current)"
    unfolding m using max_double_zero_iff[of "price / 2 - current"] by simp
  show "calculateMissingWagered price current = max 0 (price / 2 - current)"
    if "price / 2 - current = of_int k * 2 powi j \<and> \<bar>k\<bar> < 2 ^ 53"
    unfolding m using that double_representable[of k j] by simp
  show "purchase_disabled purchasing raw_balance price (Some current)" if "current < price / 2"
    using that by (simp add: purchase_disabled_def r)
  show "purchase_disabled purchasing raw_balance price (Some current)
           = (purchasing \<or> raw_balance < price)" if "price / 2 \<le> current"
    using that by (auto simp: purchase_disabled_def r)
  show "click_purchase s confirmed telegramInitData gift = None"
    if "gift_price gift = price \<and> st_userStats s = Some current \<and> current < price / 2"
    using that by (simp add: click_purchase_def purchase_disabled_def r)
next
  show "purchase_disabled purchasing raw_balance price None = (purchasing \<or> raw_balance < price)"
    by (simp add: purchase_disabled_def)
next
  assume a: "st_userStats s = None \<and> st_purchasing s \<noteq> Some (gift_id gift) \<and>
    gift_price gift \<le> st_balance s \<and> gift \<in> set (st_gifts s)"
  then have "\<not> purchase_disabled (st_purchasing s = Some (gift_id gift)) (st_balance s)
      (gift_price gift) (st_userStats s)"
    by (simp add: purchase_disabled_def)
  with a purchaseGift_posts[of gift "st_gifts s"]
  show "click_purchase s True True gift = Some (Post_purchase_gift (gift_id gift))"
    by (simp add: click_purchase_def)
qed

theorem wagering_gate_witness:
  "double 100 = 100 \<and> (40 :: rat) < 100 / 2 \<and>
   calculateRequiredWagered 100 = 50 \<and> calculateMissingWagered 100 40 = 10 \<and>
   purchase_disabled False 1000000 100 (Some 40) \<and>
   click_purchase
     \<lparr> st_gifts = [\<lparr> gift_id = ''bear'', gift_price = 100, is_unique = False \<rparr>],
       st_balance = 1000000, st_purchasing = None, st_userStats = Some 40 \<rparr>
     True True \<lparr> gift_id = ''bear'', gift_price = 100, is_unique = False \<rparr> = None \<and>
   (100 :: rat) / 2 \<le> 50 \<and> \<not> purchase_disabled False 1000000 100 (Some 50) \<and>
   calculateMissingWagered 100 50 = 0 \<and>
   click_purchase
     \<lparr> st_gifts = [\<lparr> gift_id = ''bear'', gift_price = 100, is_unique = False \<rparr>],
       st_balance = 1000000, st_purchasing = None, st_userStats = None \<rparr>
     True True \<lparr> gift_id = ''bear'', gift_price = 100, is_unique = False \<rparr>
     = Some (Post_purchase_gift ''bear'')"
proof -
  let ?g = "\<lparr> gift_id = ''bear'', gift_price = 100, is_unique = False \<rparr>"
  let ?s = "\<lparr> st_gifts = [?g], st_balance = 1000000, st_purchasing = None, st_userStats = Some 40 \<rparr>"
  let ?n = "\<lparr> st_gifts = [?g], st_balance = 1000000, st_purchasing = None, st_userStats = None \<rparr>"
  have d: "double 100 = 100" by code_simp
  have e: "(100 :: rat) / 2 - 40 = of_int 10 * 2 powi 0 \<and> \<bar>10 :: int\<bar> < 2 ^ 53" by simp
  have a: "calculateRequiredWagered 100 = 50" "calculateMissingWagered 100 40 = 10"
    "purchase_disabled False 1000000 100 (Some 40)" "click_purchase ?s True True ?g = None"
    using wagering_gate[where price = 100 and current = 40 and k = 10 and j = 0
        and purchasing = False and raw_balance = 1000000 and s = ?s and gift = ?g
        and confirmed = True and telegramInitData = True] d e
    by simp_all
  have b: "\<not> purchase_disabled False 1000000 100 (Some 50)" "calculateMissingWagered 100 50 = 0"
    using wagering_gate[where price = 100 and current = 50 and purchasing = False
        and raw_balance = 1000000] d
    by simp_all
  have c: "click_purchase ?n True True ?g = Some (Post_purchase_gift ''bear'')"
    using wagering_gate[where s = ?n and gift = ?g] by simp
  from d a b c show ?thesis by simp
qed

text \<open>
  C8 as stated fails in two places. For the doubles nearest 100.1 and 0.01 the missing amount
  that \<^verbatim>\<open>calculateMissingWagered\<close> returns is not \<open>max 0 (price / 2 - current)\<close>;
  and while \<^verbatim>\<open>userStats\<close> is \<^verbatim>\<open>null\<close> the button is enabled and the click
  posts the request, whatever the user has wagered.
\<close>

theorem wagering_gate_counterexample:
  "double (3521955646092083 / 35184372088832) = 3521955646092083 / 35184372088832 \<and>
   double (5764607523034235 / 576460752303423488) = 5764607523034235 / 576460752303423488 \<and>
   calculateMissingWagered (3521955646092083 / 35184372088832)
       (5764607523034235 / 576460752303423488)
     = 7042503917300613 / 140737488355328 \<and>
   max 0 ((3521955646092083 / 35184372088832 :: rat) / 2 - 5764607523034235 / 576460752303423488)
     = 28846096045263309701 / 576460752303423488 \<and>
   (7042503917300613 / 140737488355328 :: rat) \<noteq> 28846096045263309701 / 576460752303423488 \<and>
   \<not> purchase_disabled False 1000000 100 None \<and>
   click_purchase
     \<lparr> st_gifts = [\<lparr> gift_id = ''bear'', gift_price = 100, is_unique = False \<rparr>],
       st_balance = 1000000, st_purchasing = None, st_userStats = None \<rparr>
     True True \<lparr> gift_id = ''bear'', gift_price = 100, is_unique = False \<rparr>
     = Some (Post_purchase_gift ''bear'')"
  by code_simp

section \<open>Round engine: growth and crash tick\<close>

lemma coefficient_ge_one: "1 \<le> coefficient g t"
  by (simp add: coefficient_def)

lemma coefficient_mono:
  assumes "0 \<le> g" "t \<le> t'"
  shows "coefficient g t \<le> coefficient g t'"
proof (cases "g \<le> 1")
  case True
  then have "g ^ t \<le> 1" "g ^ t' \<le> 1" using assms(1) by (simp_all add: power_le_one)
  then show ?thesis by (simp add: coefficient_def)
next
  case False
  then have "g ^ t \<le> g ^ t'" using assms(2) by (intro power_increasing) simp_all
  then show ?thesis by (auto simp: coefficient_def max_def)
qed

lemma serve_snoc: "serve s (rs @ [r]) = process (serve s rs) r"
  by (simp add: serve_def)

lemma serve_Cons: "serve s (r # rs) = serve (process s r) rs"
  by (simp add: serve_def)

lemma ticks_snoc: "Start_playing # replicate (Suc n) Tick = (Start_playing # replicate n Tick) @ [Tick]"
  by (simp add: replicate_append_same)

lemma playing_run:
  assumes "status s = Waiting"
    and "\<forall>k \<le> n. coefficient (growth_rate s) k < crash_point s"
  shows "serve s (Start_playing # replicate n Tick) =
           s\<lparr>status := Playing, join_open := False, tick_count := n\<rparr>"
  using assms(2)
proof (induction n)
  case 0
  then have "coefficient (growth_rate s) 0 < crash_point s" by simp
  then show ?case using assms(1)
    by (simp add: serve_def process_def start_playing_def crash_if_reached_def
        current_coefficient_def)
next
  case (Suc n)
  then have ih: "serve s (Start_playing # replicate n Tick) =
           s\<lparr>status := Playing, join_open := False, tick_count := n\<rparr>" by simp
  from Suc.prems have "coefficient (growth_rate s) (Suc n) < crash_point s" by simp
  then show ?case unfolding ticks_snoc serve_snoc ih
    by (simp add: process_def tick_def crash_if_reached_def current_coefficient_def)
qed

lemma crashed_process:
  "status s = Crashed \<Longrightarrow> \<not> starts_new_round r \<Longrightarrow> process s r = s"
  by (cases r) (simp_all add: process_def join_def cashout_def close_joins_def
      start_playing_def tick_def)

lemma crashed_serve:
  "status s = Crashed \<Longrightarrow> \<forall>r \<in> set rs. \<not> starts_new_round r \<Longrightarrow> serve s rs = s"
proof (induction rs rule: rev_induct)
  case Nil
  then show ?case by (simp add: serve_def)
next
  case (snoc r rs)
  then show ?case by (simp add: serve_snoc crashed_process)
qed

lemma status_crash [simp]: "status (crash s) = Crashed"
  by (simp add: crash_def)

lemma crash_at_first_tick:
  assumes "status s = Waiting"
    and "crash_point s \<le> coefficient (growth_rate s) t"
    and "\<forall>k < t. coefficient (growth_rate s) k < crash_point s"
  shows "serve s (Start_playing # replicate t Tick) =
           crash (s\<lparr>status := Playing, join_open := False, tick_count := t\<rparr>)"
proof (cases t)
  case 0
  then show ?thesis using assms(1,2)
    by (simp add: serve_def process_def start_playing_def crash_if_reached_def
        current_coefficient_def)
next
  case (Suc n)
  with assms(3) have "\<forall>k \<le> n. coefficient (growth_rate s) k < crash_point s" by auto
  from playing_run[OF assms(1) this]
  have ih: "serve s (Start_playing # replicate n Tick) =
           s\<lparr>status := Playing, join_open := False, tick_count := n\<rparr>" .
  show ?thesis unfolding Suc ticks_snoc serve_snoc ih using assms(2) Suc
    by (simp add: process_def tick_def crash_if_reached_def current_coefficient_def)
qed

lemma crash_stays:
  assumes "status s = Waiting"
    and "crash_point s \<le> coefficient (growth_rate s) t"
    and "\<forall>k < t. coefficient (growth_rate s) k < crash_point s"
    and "t \<le> n"
  shows "serve s (Start_playing # replicate n Tick) =
           crash (s\<lparr>status := Playing, join_open := False, tick_count := t\<rparr>)"
proof -
  from assms(4) obtain m where n: "n = t + m" using le_Suc_ex by blast
  have "Start_playing # replicate n Tick = (Start_playing # replicate t Tick) @ replicate m Tick"
    by (simp add: n replicate_add)
  then have "serve s (Start_playing # replicate n Tick) =
        serve (serve s (Start_playing # replicate t Tick)) (replicate m Tick)"
    by (simp add: serve_def)
  also have "\<dots> = serve (crash (s\<lparr>status := Playing, join_open := False, tick_count := t\<rparr>))
                     (replicate m Tick)"
    using crash_at_first_tick[OF assms(1,2,3)] by simp
  also have "\<dots> = crash (s\<lparr>status := Playing, join_open := False, tick_count := t\<rparr>)"
    by (rule crashed_serve) simp_all
  finally show ?thesis .
qed

text \<open>
  C6. The coefficient at tick \<open>t\<close> is \<open>max 1 (growth_rate ^ t)\<close>, and the game screen,
  which shows \<open>max 1 raw\<close> of the coefficient \<open>raw\<close> it receives, shows exactly that
  value; it is never below 1 and, for a non-negative growth rate, it is non-decreasing in
  \<open>t\<close>, on the screen as well. A round started from the waiting phase is playing with tick
  count \<open>n\<close> after \<open>n\<close> ticks as long as every coefficient up to \<open>n\<close> is below the crash
  point, and is crashed, with the tick count of the first tick whose coefficient reaches
  the crash point, from that tick on.
\<close>

theorem coefficient_growth_and_crash_tick:
  "coefficient g t = max 1 (g ^ t) \<and> 1 \<le> coefficient g t \<and> 1 \<le> newCoefficient raw \<and>
   newCoefficient raw = max 1 raw \<and>
   newCoefficient (coefficient g t) = max 1 (g ^ t) \<and>
   (0 \<le> g \<and> t \<le> t' \<longrightarrow> coefficient g t \<le> coefficient g t') \<and>
   (0 \<le> g \<and> t \<le> t' \<longrightarrow>
      newCoefficient (coefficient g t) \<le> newCoefficient (coefficient g t')) \<and>
   (status s = Waiting \<and> (\<forall>k \<le> n. coefficient (growth_rate s) k < crash_point s) \<longrightarrow>
      status (serve s (Start_playing # replicate n Tick)) = Playing \<and>
      tick_count (serve s (Start_playing # replicate n Tick)) = n \<and>
      current_coefficient (serve s (Start_playing # replicate n Tick))
        = max 1 (growth_rate s ^ n) \<and>
      newCoefficient (current_coefficient (serve s (Start_playing # replicate n Tick)))
        = max 1 (growth_rate s ^ n)) \<and>
   (status s = Waiting \<and> crash_point s \<le> coefficient (growth_rate s) t \<and>
    (\<forall>k < t. coefficient (growth_rate s) k < crash_point s) \<and> t \<le> n \<longrightarrow>
      status (serve s (Start_playing # replicate n Tick)) = Crashed \<and>
      tick_count (serve s (Start_playing # replicate n Tick)) = t)"
proof (intro conjI impI)
  show "coefficient g t = max 1 (g ^ t)" by (simp add: coefficient_def)
  show "1 \<le> coefficient g t" by (rule coefficient_ge_one)
  show "1 \<le> newCoefficient raw" by (simp add: newCoefficient_def)
  show "newCoefficient raw = max 1 raw" by (simp add: newCoefficient_def)
  show "newCoefficient (coefficient g t) = max 1 (g ^ t)"
    by (simp add: newCoefficient_def coefficient_def)
next
  assume "0 \<le> g \<and> t \<le> t'"
  then show "coefficient g t \<le> coefficient g t'" using coefficient_mono by blast
next
  assume "0 \<le> g \<and> t \<le> t'"
  then have "coefficient g t \<le> coefficient g t'" using coefficient_mono by blast
  then show "newCoefficient (coefficient g t) \<le> newCoefficient (coefficient g t')"
    by (simp add: newCoefficient_def max.coboundedI2)
next
  assume h: "status s = Waiting \<and> (\<forall>k \<le> n. coefficient (growth_rate s) k < crash_point s)"
  then have e: "serve s (Start_playing # replicate n Tick) =
           s\<lparr>status := Playing, join_open := False, tick_count := n\<rparr>"
    using playing_run by blast
  show "status (serve s (Start_playing # replicate n Tick)) = Playing" by (simp add: e)
  show "tick_count (serve s (Start_playing # replicate n Tick)) = n" by (simp add: e)
  show "current_coefficient (serve s (Start_playing # replicate n Tick)) = max 1 (growth_rate s ^ n)"
    by (simp add: e current_coefficient_def coefficient_def)
  show "newCoefficient (current_coefficient (serve s (Start_playing # replicate n Tick)))
        = max 1 (growth_rate s ^ n)"
    by (simp add: e current_coefficient_def coefficient_def newCoefficient_def)
next
  assume h: "status s = Waiting \<and> crash_point s \<le> coefficient (growth_rate s) t \<and>
    (\<forall>k < t. coefficient (growth_rate s) k < crash_point s) \<and> t \<le> n"
  then have e: "serve s (Start_playing # replicate n Tick) =
           crash (s\<lparr>status := Playing, join_open := False, tick_count := t\<rparr>)"
    using crash_stays by blast
  show "status (serve s (Start_playing # replicate n Tick)) = Crashed" by (simp add: e)
  show "tick_count (serve s (Start_playing # replicate n Tick)) = t" by (simp add: e crash_def)
qed

theorem coefficient_growth_witness:
  "(0 :: rat) \<le> 101 / 100 \<and> (50 :: nat) \<le> 69 \<and>
   coefficient (101 / 100) 50 \<le> coefficient (101 / 100) 69 \<and>
   newCoefficient (coefficient (101 / 100) 2) = 10201 / 10000 \<and>
   newCoefficient (1 / 2) = 1 \<and>
   status scenario_engine = Waiting \<and>
   coefficient (growth_rate scenario_engine) 69 < crash_point scenario_engine \<and>
   crash_point scenario_engine \<le> coefficient (growth_rate scenario_engine) 70 \<and>
   status (serve scenario_engine (Start_playing # replicate 69 Tick)) = Playing \<and>
   tick_count (serve scenario_engine (Start_playing # replicate 69 Tick)) = 69 \<and>
   status (serve scenario_engine (Start_playing # replicate 75 Tick)) = Crashed \<and>
   tick_count (serve scenario_engine (Start_playing # replicate 75 Tick)) = 70"
proof -
  have g: "growth_rate scenario_engine = 101 / 100" "crash_point scenario_engine = 2"
    "status scenario_engine = Waiting"
    by (simp_all add: scenario_engine_def)
  have c69: "coefficient (101 / 100) 69 < 2" by (simp add: coefficient_def power_divide)
  have c70: "(2 :: rat) \<le> coefficient (101 / 100) 70" by (simp add: coefficient_def power_divide)
  have below: "\<forall>k \<le> 69. coefficient (growth_rate scenario_engine) k < crash_point scenario_engine"
  proof (intro allI impI)
    fix k :: nat assume "k \<le> 69"
    then have "coefficient (101 / 100) k \<le> coefficient (101 / 100) 69"
      by (intro coefficient_mono) simp_all
    with c69 show "coefficient (growth_rate scenario_engine) k < crash_point scenario_engine"
      by (simp add: g)
  qed
  then have below': "\<forall>k < 70. coefficient (growth_rate scenario_engine) k < crash_point scenario_engine"
    by auto
  have h69: "coefficient (growth_rate scenario_engine) 69 < crash_point scenario_engine"
    using c69 by (simp only: g)
  have h70: "crash_point scenario_engine \<le> coefficient (growth_rate scenario_engine) 70"
    using c70 by (simp only: g)
  have z: "(0 :: rat) \<le> 101 / 100" "(50 :: nat) \<le> 69" "(70 :: nat) \<le> 75" by simp_all
  have m: "coefficient (101 / 100) 50 \<le> coefficient (101 / 100) 69"
    using coefficient_growth_and_crash_tick[where g = "101 / 100" and t = 50 and t' = 69] z
    by blast
  have p: "status (serve scenario_engine (Start_playing # replicate 69 Tick)) = Playing \<and>
   tick_count (serve scenario_engine (Start_playing # replicate 69 Tick)) = 69"
    using coefficient_growth_and_crash_tick[where s = scenario_engine and n = 69]
      g(3) below by blast
  have c: "status (serve scenario_engine (Start_playing # replicate 75 Tick)) = Crashed \<and>
   tick_count (serve scenario_engine (Start_playing # replicate 75 Tick)) = 70"
    using coefficient_growth_and_crash_tick[where s = scenario_engine and n = 75 and t = 70]
      g(3) h70 below' z(3) by blast
  have shown: "newCoefficient (coefficient (101 / 100) 2) = 10201 / 10000"
    using coefficient_growth_and_crash_tick[where g = "101 / 100" and t = 2]
    by (simp add: power2_eq_square)
  have clamped: "newCoefficient (1 / 2) = 1"
    using coefficient_growth_and_crash_tick[where raw = "1 / 2"] by simp
  from z(1,2) g(3) h69 h70 m p c shown clamped show ?thesis by blast
qed

section \<open>Round engine: cashout arbitration\<close>

lemma cashout_accepted_iff:
  "(\<not> isl (cashout u s)) =
     (status s = Playing \<and> current_coefficient s < crash_point s \<and>
      (\<exists>b. bets s u = Some b \<and> bet_state b = Open))"
  by (cases "status s") (auto simp: cashout_def Let_def split: option.splits)

lemma cashout_after_crash: "status s = Crashed \<Longrightarrow> cashout u s = Inl RoundAlreadyCrashed"
  by (simp add: cashout_def)

lemma crash_if_reached_cases: "crash_if_reached s = s \<or> crash_if_reached s = crash s"
  by (simp add: crash_if_reached_def)

lemma crash_transition_settles:
  assumes "status s \<noteq> Crashed" "handle r s = Inr s'" "status s' = Crashed"
    and "bets s u = Some b" "bet_state b = Open"
  shows "bets s' u = Some (b\<lparr>bet_state := Lost\<rparr>)"
proof (cases r)
  case (Join v a)
  with assms(1,2,3) show ?thesis by (auto simp: join_def split: if_splits)
next
  case (Cashout v)
  with assms(1,2,3) show ?thesis
    by (auto simp: cashout_def Let_def split: if_splits option.splits)
next
  case Close_joins
  with assms(1,2,3) show ?thesis by (auto simp: close_joins_def split: if_splits)
next
  case Start_playing
  let ?p = "s\<lparr>status := Playing, join_open := False, tick_count := 0\<rparr>"
  from Start_playing assms(2) have s': "s' = crash_if_reached ?p"
    by (auto simp: start_playing_def split: if_splits)
  with assms(3) crash_if_reached_cases[of ?p] have "s' = crash ?p" by auto
  then show ?thesis using assms(4,5) by (simp add: crash_def)
next
  case Tick
  let ?p = "s\<lparr>tick_count := tick_count s + 1\<rparr>"
  from Tick assms(2) have s': "s' = crash_if_reached ?p"
    by (auto simp: tick_def split: if_splits)
  with assms(1,3) crash_if_reached_cases[of ?p] have "s' = crash ?p" by auto
  then show ?thesis using assms(4,5) by (simp add: crash_def)
next
  case (New_round cp)
  with assms(1,2,3) show ?thesis by (auto simp: new_round_def split: if_splits)
qed

lemma rejected_cashout_no_op: "isl (cashout u s) \<Longrightarrow> process s (Cashout u) = s"
  by (cases "cashout u s") (simp_all add: process_def)

text \<open>
  C1. For a user who holds an open bet, a cashout request is accepted if and only if it
  is processed while the round is playing and the coefficient at processing time is
  strictly below the crash point; a rejected request changes nothing. Once a request has
  moved the round to CRASHED, every cashout processed before the next round begins is
  rejected as RoundAlreadyCrashed, and every bet that was open at the transition is lost.
\<close>

theorem cashout_arbitration:
  "(bets s u = Some b \<and> bet_state b = Open \<longrightarrow>
      ((\<not> isl (cashout u s)) =
         (status s = Playing \<and> current_coefficient s < crash_point s))) \<and>
   (isl (cashout u s) \<longrightarrow> process s (Cashout u) = s) \<and>
   (status s \<noteq> Crashed \<and> handle r s = Inr s' \<and> status s' = Crashed \<and>
    (\<forall>q \<in> set rs. \<not> starts_new_round q) \<longrightarrow>
      cashout u (serve s' rs) = Inl RoundAlreadyCrashed \<and>
      (\<forall>b. bets s u = Some b \<and> bet_state b = Open \<longrightarrow>
           bets (serve s' rs) u = Some (b\<lparr>bet_state := Lost\<rparr>)))"
proof (intro conjI impI)
  assume "bets s u = Some b \<and> bet_state b = Open"
  then show "(\<not> isl (cashout u s)) =
         (status s = Playing \<and> current_coefficient s < crash_point s)"
    using cashout_accepted_iff[of u s] by auto
next
  assume "isl (cashout u s)"
  then show "process s (Cashout u) = s" by (rule rejected_cashout_no_op)
next
  assume h: "status s \<noteq> Crashed \<and> handle r s = Inr s' \<and> status s' = Crashed \<and>
    (\<forall>q \<in> set rs. \<not> starts_new_round q)"
  then have e: "serve s' rs = s'" using crashed_serve by blast
  show "cashout u (serve s' rs) = Inl RoundAlreadyCrashed"
    using h e cashout_after_crash by simp
  show "\<forall>b. bets s u = Some b \<and> bet_state b = Open \<longrightarrow>
           bets (serve s' rs) u = Some (b\<lparr>bet_state := Lost\<rparr>)"
    using h e crash_transition_settles[of s r s' u] by auto
qed

theorem cashout_arbitration_witness:
  "status (serve (scenario_engine\<lparr>crash_point := 51 / 50\<rparr>) [Join 1 100, Start_playing, Tick])
     = Playing \<and>
   current_coefficient (serve (scenario_engine\<lparr>crash_point := 51 / 50\<rparr>)
     [Join 1 100, Start_playing, Tick]) < 51 / 50 \<and>
   map_option bet_state (bets (serve (scenario_engine\<lparr>crash_point := 51 / 50\<rparr>)
     [Join 1 100, Start_playing, Tick]) 1) = Some Open \<and>
   \<not> isl (cashout 1 (serve (scenario_engine\<lparr>crash_point := 51 / 50\<rparr>)
     [Join 1 100, Start_playing, Tick])) \<and>
   \<not> isl (handle Tick (serve (scenario_engine\<lparr>crash_point := 51 / 50\<rparr>)
     [Join 1 100, Start_playing, Tick])) \<and>
   status (projr (handle Tick (serve (scenario_engine\<lparr>crash_point := 51 / 50\<rparr>)
     [Join 1 100, Start_playing, Tick]))) = Crashed \<and>
   cashout 1 (serve (projr (handle Tick (serve (scenario_engine\<lparr>crash_point := 51 / 50\<rparr>)
     [Join 1 100, Start_playing, Tick]))) [Cashout 1, Tick, Join 1 50, Start_playing])
     = Inl RoundAlreadyCrashed \<and>
   map_option bet_state (bets (serve (projr (handle Tick (serve
     (scenario_engine\<lparr>crash_point := 51 / 50\<rparr>) [Join 1 100, Start_playing, Tick])))
     [Cashout 1, Tick, Join 1 50, Start_playing]) 1) = Some Lost \<and>
   process (projr (handle Tick (serve (scenario_engine\<lparr>crash_point := 51 / 50\<rparr>)
     [Join 1 100, Start_playing, Tick]))) (Cashout 1)
     = projr (handle Tick (serve (scenario_engine\<lparr>crash_point := 51 / 50\<rparr>)
         [Join 1 100, Start_playing, Tick]))"
proof -
  let ?s1 = "serve (scenario_engine\<lparr>crash_point := 51 / 50\<rparr>) [Join 1 100, Start_playing, Tick]"
  let ?s2 = "projr (handle Tick ?s1)"
  let ?rs = "[Cashout 1, Tick, Join 1 50, Start_playing]"
  let ?b = "\<lparr> amount = 100, bet_state = Open, cashout_coefficient = None, payout = None \<rparr>"
  have a: "status ?s1 = Playing" by code_simp
  have b: "current_coefficient ?s1 < 51 / 50" by code_simp
  have cp: "crash_point ?s1 = 51 / 50" by code_simp
  have c: "bets ?s1 1 = Some ?b" by code_simp
  have d: "\<not> isl (handle Tick ?s1)" by code_simp
  then have d': "handle Tick ?s1 = Inr ?s2" by simp
  have e: "status ?s2 = Crashed" by code_simp
  have f: "\<forall>q \<in> set ?rs. \<not> starts_new_round q" by simp
  have n: "status ?s1 \<noteq> Crashed" using a by simp
  have ok: "\<not> isl (cashout 1 ?s1)"
    using cashout_arbitration[where s = ?s1 and u = 1 and b = ?b] a b cp c by simp
  have after: "cashout 1 (serve ?s2 ?rs) = Inl RoundAlreadyCrashed \<and>
      (\<forall>b. bets ?s1 1 = Some b \<and> bet_state b = Open \<longrightarrow>
           bets (serve ?s2 ?rs) 1 = Some (b\<lparr>bet_state := Lost\<rparr>))"
    using cashout_arbitration[where s = ?s1 and u = 1 and r = Tick and s' = ?s2 and rs = ?rs]
      n d' e f by blast
  then have lost: "bets (serve ?s2 ?rs) 1 = Some (?b\<lparr>bet_state := Lost\<rparr>)" using c by simp
  have rej: "isl (cashout 1 ?s2)" by code_simp
  have noop: "process ?s2 (Cashout 1) = ?s2"
    using cashout_arbitration[where s = ?s2 and u = 1] rej by blast
  from a b c ok d e after lost noop show ?thesis by simp
qed

end
